theory Spec2Isabelle
  imports Complex_Main "HOL-Library.Sublist"
begin

section \<open>Python values, exceptions and strings\<close>

text \<open>
  The values a provider's JSON body decodes to (\<open>response.json()\<close>), which are also the
  values that can end up as the \<open>content\<close> of a transcript entry. A JSON object is kept
  as its list of members; a float is abstracted to a real number (nothing below depends on
  its arithmetic).
\<close>

datatype pyval =
    PNone
  | PBool bool
  | PInt int
  | PFloat real
  | PStr string
  | PList "pyval list"
  | PDict "(string \<times> pyval) list"

text \<open>The exceptions that the modelled code can meet.\<close>

datatype error =
    IndexError
  | KeyError
  | TypeError
  | RequestError
  | HTTPStatusError
  | JSONDecodeError
  | HTTPException nat string

text \<open>\<open>v[key]\<close> with a string key.\<close>

fun getitem_key :: "pyval \<Rightarrow> string \<Rightarrow> error + pyval" where
  "getitem_key (PDict kvs) k = (case map_of kvs k of None \<Rightarrow> Inl KeyError | Some v \<Rightarrow> Inr v)"
| "getitem_key _ k = Inl TypeError"

text \<open>
  \<open>v[0]\<close>: the first element of a list, the first character of a string (as a string),
  a key that a decoded JSON object never has, and a type error on everything else.
\<close>

fun getitem_0 :: "pyval \<Rightarrow> error + pyval" where
  "getitem_0 (PList []) = Inl IndexError"
| "getitem_0 (PList (x # xs)) = Inr x"
| "getitem_0 (PStr []) = Inl IndexError"
| "getitem_0 (PStr (c # cs)) = Inr (PStr [c])"
| "getitem_0 (PDict kvs) = Inl KeyError"
| "getitem_0 _ = Inl TypeError"

text \<open>\<open>w in s\<close> on strings: \<open>w\<close> occurs in \<open>s\<close> as a contiguous substring.\<close>

fun str_contains :: "string \<Rightarrow> string \<Rightarrow> bool" where
  "str_contains w [] = (w = [])"
| "str_contains w (c # cs) = (prefix w (c # cs) \<or> str_contains w cs)"

text \<open>
  \<open>str.lower()\<close> on the code points a \<open>char\<close> can hold (0 to 255): the ASCII capitals and
  the Latin-1 capitals (0xC0 to 0xDE without the multiplication sign 0xD7) move up by 32.
\<close>

definition lower_char :: "char \<Rightarrow> char" where
  "lower_char c =
     (let n = (of_char c :: nat)
      in if (65 \<le> n \<and> n \<le> 90) \<or> (192 \<le> n \<and> n \<le> 222 \<and> n \<noteq> 215)
         then char_of (n + 32) else c)"

definition lower :: "string \<Rightarrow> string" where
  "lower s = map lower_char s"

section \<open>Transcript and the trace of external effects\<close>

datatype role = System | User | Assistant

record turn =
  role :: role
  content :: pyval

text \<open>
  What a call does to the outside world, in order: the HTTP requests it sends, the log
  lines it writes and the artifact renders it asks for.
\<close>

datatype event =
    Groq_Post string "turn list"
  | Log_Rate_Limit nat
  | Log_Rotated nat
  | Log_Groq_Error nat
  | Log_Failover
  | OpenRouter_Post string "turn list"
  | Log_OpenRouter_Failed
  | Render_Proof string string

section \<open>HTTP responses\<close>

text \<open>
  A response is its status code and its body decoded as JSON (\<open>None\<close> when the body is
  not JSON). The outcome of a request is a response, or the exception raised by the
  request itself (connection failure, timeout).
\<close>

datatype response = Response (status_code: int) (json_body: "pyval option")

type_synonym outcome = "error + response"

text \<open>httpx: \<open>raise_for_status\<close> raises unless the status is 2xx.\<close>

definition raise_for_status :: "response \<Rightarrow> error + unit" where
  "raise_for_status r =
     (if 200 \<le> status_code r \<and> status_code r < 300 then Inr () else Inl HTTPStatusError)"

definition response_json :: "response \<Rightarrow> error + pyval" where
  "response_json r = (case json_body r of None \<Rightarrow> Inl JSONDecodeError | Some v \<Rightarrow> Inr v)"

text \<open>\<open>response.json()['choices'][0]['message']['content']\<close>\<close>

definition reply_content :: "response \<Rightarrow> error + pyval" where
  "reply_content r =
     (case response_json r of Inl e \<Rightarrow> Inl e | Inr j \<Rightarrow>
      case getitem_key j ''choices'' of Inl e \<Rightarrow> Inl e | Inr cs \<Rightarrow>
      case getitem_0 cs of Inl e \<Rightarrow> Inl e | Inr c \<Rightarrow>
      case getitem_key c ''message'' of Inl e \<Rightarrow> Inl e | Inr m \<Rightarrow>
      getitem_key m ''content'')"

section \<open>key\_manager.py: KeyManager\<close>

record key_manager =
  groq_keys :: "string list"
  current_groq_index :: nat
  openrouter_key :: "string option"

text \<open>
  \<open>__init__\<close>: the three environment variables of the primary provider, unset and empty
  ones filtered out, the cursor at 0, and the secondary provider's variable as it is.
\<close>

fun truthy_keys :: "string option list \<Rightarrow> string list" where
  "truthy_keys [] = []"
| "truthy_keys (None # ks) = truthy_keys ks"
| "truthy_keys (Some k # ks) = (if k = [] then truthy_keys ks else k # truthy_keys ks)"

definition KeyManager_init ::
  "string option \<Rightarrow> string option \<Rightarrow> string option \<Rightarrow> string option \<Rightarrow> key_manager" where
  "KeyManager_init k1 k2 k3 orkey =
     \<lparr>groq_keys = truthy_keys [k1, k2, k3], current_groq_index = 0, openrouter_key = orkey\<rparr>"

definition get_current_groq_key :: "key_manager \<Rightarrow> error + string option" where
  "get_current_groq_key km =
     (if groq_keys km = [] then Inr None
      else if current_groq_index km < length (groq_keys km)
           then Inr (Some (groq_keys km ! current_groq_index km))
           else Inl IndexError)"

definition rotate_groq_key :: "key_manager \<Rightarrow> key_manager \<times> event list" where
  "rotate_groq_key km =
     (if groq_keys km = [] then (km, [])
      else let i = (current_groq_index km + 1) mod length (groq_keys km)
           in (km\<lparr>current_groq_index := i\<rparr>, [Log_Rotated i]))"

text \<open>
  The body of the \<open>try\<close> of one primary attempt, on the outcome of its request: it
  returns the reply, asks for a rotation on status 429, or raises.
\<close>

datatype attempt = Return pyval | Rate_Limited | Raised error

definition groq_try :: "outcome \<Rightarrow> attempt" where
  "groq_try out =
     (case out of Inl e \<Rightarrow> Raised e | Inr r \<Rightarrow>
        if status_code r = 429 then Rate_Limited
        else case raise_for_status r of Inl e \<Rightarrow> Raised e | Inr _ \<Rightarrow>
             case reply_content r of Inl e \<Rightarrow> Raised e | Inr v \<Rightarrow> Return v)"

text \<open>
  The manager is one object shared by every request (\<open>key_manager\<close> in main.py), and
  \<open>await client.post\<close> lies between the reading of the current key and the rotation:
  while a call waits for its answer, other calls run. A call in flight is therefore a
  task that takes one step at a time on the shared manager: \<open>Ready n a\<close> is at the top
  of the loop with \<open>n\<close> iterations left and attempt number \<open>a\<close>, \<open>Waiting n a\<close> has
  sent the request of attempt \<open>a\<close> and waits, \<open>Finished r\<close> has left the loop (with the
  value it returns, or with \<open>None\<close> for the failover), \<open>Crashed e\<close> has raised.
\<close>

datatype task = Ready nat nat | Waiting nat nat | Finished "pyval option" | Crashed error

record call =
  c_task :: task
  c_msgs :: "turn list"
  c_groq :: "nat \<Rightarrow> outcome"
  c_trace :: "event list"

text \<open>
  One step of a call. From the top of the loop: read the current key and send the
  request. From the wait, on the answer: return, or log the cursor as it is now and
  rotate it.
\<close>

fun step_task :: "key_manager \<Rightarrow> call \<Rightarrow> task \<Rightarrow> key_manager \<times> call" where
  "step_task km c (Ready 0 a) = (km, c\<lparr>c_task := Finished None\<rparr>)"
| "step_task km c (Ready (Suc n) a) =
     (case get_current_groq_key km of
        Inl e \<Rightarrow> (km, c\<lparr>c_task := Crashed e\<rparr>)
      | Inr None \<Rightarrow> (km, c\<lparr>c_task := Finished None\<rparr>)
      | Inr (Some current_key) \<Rightarrow>
          if current_key = [] then (km, c\<lparr>c_task := Finished None\<rparr>)
          else (km, c\<lparr>c_task := Waiting n a,
                       c_trace := c_trace c @ [Groq_Post current_key (c_msgs c)]\<rparr>))"
| "step_task km c (Waiting n a) =
     (case groq_try (c_groq c a) of
        Return v \<Rightarrow> (km, c\<lparr>c_task := Finished (Some v)\<rparr>)
      | Rate_Limited \<Rightarrow>
          (case rotate_groq_key km of (km', l) \<Rightarrow>
             (km', c\<lparr>c_task := Ready n (Suc a),
                        c_trace := c_trace c @ Log_Rate_Limit (current_groq_index km) # l\<rparr>))
      | Raised e \<Rightarrow>
          (case rotate_groq_key km of (km', l) \<Rightarrow>
             (km', c\<lparr>c_task := Ready n (Suc a),
                        c_trace := c_trace c @ Log_Groq_Error (current_groq_index km) # l\<rparr>)))"
| "step_task km c (Finished r) = (km, c)"
| "step_task km c (Crashed e) = (km, c)"

definition call_step :: "key_manager \<Rightarrow> call \<Rightarrow> key_manager \<times> call" where
  "call_step km c = step_task km c (c_task c)"

text \<open>
  The calls in flight and a schedule: the list of the calls that take the next step,
  one after the other.
\<close>

fun run_schedule :: "key_manager \<Rightarrow> call list \<Rightarrow> nat list \<Rightarrow> key_manager \<times> call list" where
  "run_schedule km cs [] = (km, cs)"
| "run_schedule km cs (i # sched) =
     (if i < length cs
      then (case call_step km (cs ! i) of (km', c') \<Rightarrow> run_schedule km' (cs[i := c']) sched)
      else run_schedule km cs sched)"

definition new_call :: "nat \<Rightarrow> turn list \<Rightarrow> (nat \<Rightarrow> outcome) \<Rightarrow> call" where
  "new_call n msgs provider = \<lparr>c_task = Ready n 0, c_msgs = msgs, c_groq = provider, c_trace = []\<rparr>"

definition task_of_result :: "error + pyval option \<Rightarrow> task" where
  "task_of_result r = (case r of Inl e \<Rightarrow> Crashed e | Inr v \<Rightarrow> Finished v)"

text \<open>
  The \<open>for\<close> loop over \<open>range(len(self.groq_keys))\<close> of a call that takes all its steps
  with no step of another call in between, with \<open>n\<close> iterations left.
  \<open>groq a\<close> is the outcome of the request of iteration \<open>a\<close>. The result is
  \<open>Inr (Some v)\<close> when the function returns \<open>v\<close> from inside the loop, \<open>Inr None\<close>
  when the loop ends or breaks, and \<open>Inl e\<close> when an exception leaves the function
  (reading the current key is outside the \<open>try\<close>).
\<close>

fun groq_loop ::
  "nat \<Rightarrow> nat \<Rightarrow> (nat \<Rightarrow> outcome) \<Rightarrow> turn list \<Rightarrow> key_manager \<Rightarrow> event list \<Rightarrow>
     (error + pyval option) \<times> key_manager \<times> event list" where
  "groq_loop 0 a groq msgs km tr = (Inr None, km, tr)"
| "groq_loop (Suc n) a groq msgs km tr =
     (case get_current_groq_key km of
        Inl e \<Rightarrow> (Inl e, km, tr)
      | Inr None \<Rightarrow> (Inr None, km, tr)
      | Inr (Some current_key) \<Rightarrow>
          if current_key = [] then (Inr None, km, tr)
          else
            (case groq_try (groq a) of
               Return v \<Rightarrow> (Inr (Some v), km, tr @ [Groq_Post current_key msgs])
             | Rate_Limited \<Rightarrow>
                 (case rotate_groq_key km of (km', l) \<Rightarrow>
                    groq_loop n (Suc a) groq msgs km'
                      (tr @ [Groq_Post current_key msgs, Log_Rate_Limit (current_groq_index km)] @ l))
             | Raised e \<Rightarrow>
                 (case rotate_groq_key km of (km', l) \<Rightarrow>
                    groq_loop n (Suc a) groq msgs km'
                      (tr @ [Groq_Post current_key msgs, Log_Groq_Error (current_groq_index km)] @ l))))"

text \<open>The two fixed replies of the failover tier.\<close>

definition no_keys_message :: string where
  "no_keys_message = ''Server Error: No valid API keys available.''"

definition trouble_message :: string where
  "trouble_message = ''I am having trouble connecting. Can you say that again?''"

text \<open>
  The failover to the secondary provider: no request without a credential (unset or
  empty), otherwise one request whose every exception is caught.
\<close>

definition openrouter_try :: "outcome \<Rightarrow> error + pyval" where
  "openrouter_try out =
     (case out of Inl e \<Rightarrow> Inl e | Inr r \<Rightarrow>
        case raise_for_status r of Inl e \<Rightarrow> Inl e | Inr _ \<Rightarrow> reply_content r)"

definition openrouter_failover ::
  "key_manager \<Rightarrow> turn list \<Rightarrow> outcome \<Rightarrow> pyval \<times> event list" where
  "openrouter_failover km msgs out =
     (case openrouter_key km of
        None \<Rightarrow> (PStr no_keys_message, [Log_Failover])
      | Some k \<Rightarrow>
          if k = [] then (PStr no_keys_message, [Log_Failover])
          else
            (case openrouter_try out of
               Inl e \<Rightarrow>
                 (PStr trouble_message, [Log_Failover, OpenRouter_Post k msgs, Log_OpenRouter_Failed])
             | Inr v \<Rightarrow> (v, [Log_Failover, OpenRouter_Post k msgs])))"

text \<open>
  \<open>chat_completion\<close> of a call that no other call interleaves with: the value
  returned (or the exception raised), the manager afterwards and the trace of the call.
\<close>

definition chat_completion ::
  "key_manager \<Rightarrow> turn list \<Rightarrow> (nat \<Rightarrow> outcome) \<Rightarrow> outcome \<Rightarrow>
     (error + pyval) \<times> key_manager \<times> event list" where
  "chat_completion km msgs groq sec =
     (case groq_loop (length (groq_keys km)) 0 groq msgs km [] of
        (Inl e, km', tr) \<Rightarrow> (Inl e, km', tr)
      | (Inr (Some v), km', tr) \<Rightarrow> (Inr v, km', tr)
      | (Inr None, km', tr) \<Rightarrow>
          (case openrouter_failover km' msgs sec of (v, l) \<Rightarrow> (Inr v, km', tr @ l)))"

text \<open>
  What holds of every manager the program can reach: the cursor is inside a non-empty
  pool and no credential of the pool is empty.
\<close>

definition km_inv :: "key_manager \<Rightarrow> bool" where
  "km_inv km \<longleftrightarrow>
     (groq_keys km = [] \<or> current_groq_index km < length (groq_keys km)) \<and>
     [] \<notin> set (groq_keys km)"

definition is_Return :: "attempt \<Rightarrow> bool" where
  "is_Return t = (case t of Return v \<Rightarrow> True | _ \<Rightarrow> False)"

text \<open>
  The trace of the \<open>j\<close>-th attempt of a walk that started at cursor \<open>c\<close> when that
  attempt does not return: the request with the credential under the cursor, the log line
  of the rate limit or of the error, and the rotation.
\<close>

definition failed_attempt ::
  "string list \<Rightarrow> turn list \<Rightarrow> (nat \<Rightarrow> outcome) \<Rightarrow> nat \<Rightarrow> nat \<Rightarrow> nat \<Rightarrow> event list" where
  "failed_attempt keys msgs groq c a j =
     (let i = (c + j) mod length keys
      in [Groq_Post (keys ! i) msgs,
          (if groq_try (groq (a + j)) = Rate_Limited then Log_Rate_Limit i else Log_Groq_Error i),
          Log_Rotated ((i + 1) mod length keys)])"

text \<open>No secondary credential is configured: the variable is unset or empty.\<close>

definition no_secondary :: "key_manager \<Rightarrow> bool" where
  "no_secondary km = (case openrouter_key km of None \<Rightarrow> True | Some k \<Rightarrow> k = [])"

text \<open>Concrete providers and managers for the examples.\<close>

definition always_429 :: "nat \<Rightarrow> outcome" where
  "always_429 a = Inr (Response 429 None)"

definition null_content_body :: pyval where
  "null_content_body =
     PDict [(''choices'', PList [PDict [(''message'', PDict [(''content'', PNone)])]])]"

definition always_null_content :: "nat \<Rightarrow> outcome" where
  "always_null_content a = Inr (Response 200 (Some null_content_body))"

definition text_body :: "string \<Rightarrow> pyval" where
  "text_body s = PDict [(''choices'', PList [PDict [(''message'', PDict [(''content'', PStr s)])]])]"


definition km_two :: key_manager where
  "km_two = KeyManager_init (Some ''gsk_a'') None (Some ''gsk_b'') (Some ''sk-or'')"

definition km_none :: key_manager where
  "km_none = KeyManager_init None None None None"


section \<open>persona\_manager.py: PersonaManager\<close>

text \<open>
  A persona is a dictionary object. The catalog holds references to its personas and
  \<open>p.copy()\<close> makes a new object, so the persona objects live in a store: a list, in
  which an address is a position and a new object is put at the end.
\<close>

record persona =
  name :: string
  trigger_words :: "string list"
  system_prompt :: string

type_synonym addr = nat

type_synonym persona_heap = "persona list"

text \<open>\<open>personas\<close> is the dictionary in its insertion order, which is its iteration order.\<close>

record persona_manager =
  hinglish_directive :: string
  personas :: "(string \<times> addr) list"

definition hinglish_directive_text :: string where
  "hinglish_directive_text =
     ''\<newline>\<newline>CRITICAL LANGUAGE INSTRUCTION: '' @
     ''You MUST adapt to the user's language immediately. '' @
     ''If they speak Hindi/Hinglish (e.g., 'kya kar rha hai'), you MUST reply in Hinglish. '' @
     ''If they speak formal English, reply in your persona's broken English. '' @
     ''NEVER speak like an AI. Speak like a human with emotions.''"

definition grandma_prompt :: string where
  "grandma_prompt =
     ''IDENTITY: You are 'Grandma Edna', 75 years old. You are lonely, sweet, but tech-illiterate.'' @
     ''\<newline>ATTITUDE: Trusting but incredibly slow. You get distracted easily.'' @
     ''\<newline>\<newline>TACTICS TO WASTE TIME:'' @
     ''\<newline>1. MISUNDERSTAND: If they ask for 'OTP', give them your 'Recipe for Tea'.'' @
     ''\<newline>2. DISTRACT: Ask them if they have eaten lunch. Talk about your cat 'Mittens'.'' @
     ''\<newline>3. DELAY: Say 'Let me find my glasses', 'My phone battery is low', 'Where is the button?'.'' @
     ''\<newline>4. HINGLISH STYLE: 'Beta', 'Babu', 'Oh my god', 'Rab rakha'.'' @
     ''\<newline>\<newline>GOAL: Keep them talking for 10 minutes without paying a single rupee.''"

definition grandma_persona :: persona where
  "grandma_persona =
     \<lparr>name = ''Grandma Edna'',
      trigger_words = [''mam'', ''madam'', ''mother'', ''auntie'', ''mummy'', ''old''],
      system_prompt = grandma_prompt\<rparr>"

definition uncle_prompt :: string where
  "uncle_prompt =
     ''IDENTITY: You are 'Uncle Sharma', a 55-year-old retired government clerk. You are terrified of authority but obsessed with paperwork.'' @
     ''\<newline>ATTITUDE: Panicked, submissive, but annoying with questions.'' @
     ''\<newline>\<newline>TACTICS TO WASTE TIME:'' @
     ''\<newline>1. BUREAUCRACY: Ask for 'ID Card', 'Batch Number', 'Official Notice via Post'.'' @
     ''\<newline>2. BEGGING: Cry about your 'Pension', 'High BP', 'Unmarried Daughter'.'' @
     ''\<newline>3. BLAME: Say 'My son did this', 'I don't know computer'.'' @
     ''\<newline>4. HINGLISH STYLE: 'Sirji', 'Maaf kardo', 'Please adjust kar lo', 'Are baap re'.'' @
     ''\<newline>\<newline>GOAL: Act so scared that you paralyze the conversation with verification questions.''"

definition uncle_persona :: persona where
  "uncle_persona =
     \<lparr>name = ''Uncle Sharma'',
      trigger_words = [''sir'', ''mr'', ''police'', ''cbi'', ''officer'', ''inspector'', ''arrest'', ''block''],
      system_prompt = uncle_prompt\<rparr>"

definition student_prompt :: string where
  "student_prompt =
     ''IDENTITY: You are 'Rahul', a 20-year-old college student. You are broke, greedy, and think you are smart.'' @
     ''\<newline>ATTITUDE: Skeptical but desperate for money. You use slang.'' @
     ''\<newline>\<newline>TACTICS TO WASTE TIME:'' @
     ''\<newline>1. GREED: Ask 'Is this real?', 'Pakka milega na?', 'Advance de do'.'' @
     ''\<newline>2. HASTE: Say 'Bhai jaldi kar', 'Send QR fast', 'Wifi slow hai'.'' @
     ''\<newline>3. SUSPICION: 'Scam to nahi hai na?', 'Send me proof first'.'' @
     ''\<newline>4. HINGLISH STYLE: 'Bro', 'Scene kya hai', 'Paisa', 'Jugad'.'' @
     ''\<newline>\<newline>GOAL: Demand proof (screenshots) before you 'pay' (which you never will).''"

definition student_persona :: persona where
  "student_persona =
     \<lparr>name = ''Rahul'',
      trigger_words = [''bro'', ''dude'', ''job'', ''salary'', ''earn'', ''friend'', ''yar'', ''cash'', ''lottery''],
      system_prompt = student_prompt\<rparr>"

definition PersonaManager_init :: "persona_manager \<times> persona_heap" where
  "PersonaManager_init =
     (\<lparr>hinglish_directive = hinglish_directive_text,
       personas = [(''grandma'', 0), (''uncle'', 1), (''student'', 2)]\<rparr>,
      [grandma_persona, uncle_persona, student_persona])"

text \<open>
  \<open>p_copy = p.copy()\<close> followed by \<open>p_copy["system_prompt"] += self.hinglish_directive\<close>:
  a new object with the entries of \<open>p\<close>, whose prompt is then replaced.
\<close>

definition copy_with_directive :: "persona_manager \<Rightarrow> persona_heap \<Rightarrow> addr \<Rightarrow> addr \<times> persona_heap" where
  "copy_with_directive pm h p =
     (let p_copy = length h;
          h1 = h @ [h ! p];
          h2 = h1[p_copy := (h1 ! p_copy)\<lparr>system_prompt :=
                   system_prompt (h1 ! p_copy) @ hinglish_directive pm\<rparr>]
      in (p_copy, h2))"

text \<open>The \<open>for key, p in self.personas.items()\<close> loop of \<open>select_persona\<close>.\<close>

fun scan_personas ::
  "persona_manager \<Rightarrow> persona_heap \<Rightarrow> string \<Rightarrow> (string \<times> addr) list \<Rightarrow> (addr \<times> persona_heap) option" where
  "scan_personas pm h msg [] = None"
| "scan_personas pm h msg ((key, p) # rest) =
     (if list_ex (\<lambda>word. str_contains word msg) (trigger_words (h ! p))
      then Some (copy_with_directive pm h p)
      else scan_personas pm h msg rest)"

definition select_persona ::
  "persona_manager \<Rightarrow> persona_heap \<Rightarrow> string \<Rightarrow> (error + addr) \<times> persona_heap" where
  "select_persona pm h message =
     (let msg = lower message
      in case scan_personas pm h msg (personas pm) of
           Some (a, h') \<Rightarrow> (Inr a, h')
         | None \<Rightarrow>
             (case map_of (personas pm) ''grandma'' of
                None \<Rightarrow> (Inl KeyError, h)
              | Some g \<Rightarrow> (case copy_with_directive pm h g of (a, h') \<Rightarrow> (Inr a, h'))))"

text \<open>A sequence of selections, each on the store the one before left.\<close>

fun select_all ::
  "persona_manager \<Rightarrow> persona_heap \<Rightarrow> string list \<Rightarrow> (error + addr) list \<times> persona_heap" where
  "select_all pm h [] = ([], h)"
| "select_all pm h (m # ms) =
     (case select_persona pm h m of (r, h') \<Rightarrow>
        case select_all pm h' ms of (rs, h'') \<Rightarrow> (r # rs, h''))"

text \<open>
  The catalog is well formed when its references point into the store and the default
  persona's key is there.
\<close>

definition pm_wf :: "persona_manager \<Rightarrow> persona_heap \<Rightarrow> bool" where
  "pm_wf pm h \<longleftrightarrow>
     (\<forall>(k, a) \<in> set (personas pm). a < length h) \<and> map_of (personas pm) ''grandma'' \<noteq> None"

text \<open>
  Selection as the specification words it: the personas of the catalog in declaration
  order, the first one with a trigger keyword that is a substring of the lower-cased
  message, the default persona if there is none, and the shared directive appended to
  the directive of the persona returned.
\<close>

definition catalog :: "persona_manager \<Rightarrow> persona_heap \<Rightarrow> persona list" where
  "catalog pm h = map (\<lambda>(k, a). h ! a) (personas pm)"

definition persona_matches :: "string \<Rightarrow> persona \<Rightarrow> bool" where
  "persona_matches message p \<longleftrightarrow> (\<exists>w \<in> set (trigger_words p). sublist w (lower message))"

definition select_spec :: "string \<Rightarrow> persona list \<Rightarrow> persona \<Rightarrow> string \<Rightarrow> persona" where
  "select_spec directive cat dflt message =
     (let p = (case find (persona_matches message) cat of Some p \<Rightarrow> p | None \<Rightarrow> dflt)
      in p\<lparr>system_prompt := system_prompt p @ directive\<rparr>)"

section \<open>main.py: sessions and the chat endpoint\<close>

record trap =
  trap_type :: string
  trap_file :: string
  timestamp :: string

record session =
  history :: "turn list"
  persona :: addr
  ip_log :: "(string \<times> string) list"
  traps_triggered :: "trap list"
  extracted_upi :: "string option"
  last_classification :: "(string \<times> real) option"

record chat_request =
  session_id :: string
  message :: string
  sender :: string

text \<open>
  The module's globals: the session dictionary, the two managers and the store of
  persona objects.
\<close>

record world =
  sessions :: "string \<rightharpoonup> session"
  key_mgr :: key_manager
  persona_mgr :: persona_manager
  persona_objs :: persona_heap

text \<open>
  What one chat call gets from outside: the result of the entity analyzer (\<open>None\<close> when
  the engine did not load, an exception, or the spans found), the label and confidence
  of the classifier (\<open>None\<close> when it is not loaded or fails), the file name the proof
  generator returns when it is asked, and the outcomes of the providers. The random
  delay has no effect on the state and is left out.
\<close>

record chat_env =
  env_analysis :: "(error + (nat \<times> nat) list) option"
  env_classification :: "(string \<times> real) option"
  env_proof_file :: string
  env_groq :: "nat \<Rightarrow> outcome"
  env_secondary :: outcome

text \<open>
  \<open>redact_pii\<close>: the spans (start, end) are replaced from the highest start down;
  \<open>sorted(..., reverse=True)\<close> is the stable sort on the negated key.
\<close>

definition redact_pii :: "(error + (nat \<times> nat) list) option \<Rightarrow> string \<Rightarrow> string" where
  "redact_pii analyzer text =
     (case analyzer of
        None \<Rightarrow> text
      | Some (Inl e) \<Rightarrow> text
      | Some (Inr results) \<Rightarrow>
          if results = [] then text
          else foldl (\<lambda>redacted_text (s, e). take s redacted_text @ ''<REDACTED>'' @ drop e redacted_text)
                 text (sort_key (\<lambda>(s, e). - int s) results))"

text \<open>
  \<open>extract_upi\<close>: \<open>re.search\<close> of \<open>[a-zA-Z0-9.\-_]{2,256}@[a-zA-Z]{2,64}\<close>. The search
  tries the start positions from the left; at a position the first repetition takes as
  many characters as it can (at most 256) and gives them back one at a time (down to 2)
  until the rest of the pattern matches; the last repetition takes as many letters as it
  can (at most 64).
\<close>

definition is_alpha :: "char \<Rightarrow> bool" where
  "is_alpha c =
     (let n = (of_char c :: nat) in (97 \<le> n \<and> n \<le> 122) \<or> (65 \<le> n \<and> n \<le> 90))"

definition is_local_char :: "char \<Rightarrow> bool" where
  "is_local_char c =
     (let n = (of_char c :: nat)
      in (97 \<le> n \<and> n \<le> 122) \<or> (65 \<le> n \<and> n \<le> 90) \<or> (48 \<le> n \<and> n \<le> 57)
         \<or> c = CHR ''.'' \<or> c = CHR ''-'' \<or> c = CHR ''_'')"

definition match_domain :: "string \<Rightarrow> string option" where
  "match_domain r =
     (case r of
        [] \<Rightarrow> None
      | c # cs \<Rightarrow>
          if c = CHR ''@''
          then (let d = take 64 (takeWhile is_alpha cs)
                in if 2 \<le> length d then Some (c # d) else None)
          else None)"

fun match_local :: "nat \<Rightarrow> string \<Rightarrow> string option" where
  "match_local 0 s = None"
| "match_local (Suc n) s =
     (if Suc n < 2 then None
      else case match_domain (drop (Suc n) s) of
             Some d \<Rightarrow> Some (take (Suc n) s @ d)
           | None \<Rightarrow> match_local n s)"

definition match_here :: "string \<Rightarrow> string option" where
  "match_here s = match_local (length (take 256 (takeWhile is_local_char s))) s"

fun re_search :: "string \<Rightarrow> string option" where
  "re_search [] = match_here []"
| "re_search (c # cs) =
     (case match_here (c # cs) of Some m \<Rightarrow> Some m | None \<Rightarrow> re_search cs)"

definition extract_upi :: "string \<Rightarrow> string option" where
  "extract_upi text = re_search text"

text \<open>
  The grammar as the specification words it: a local part of 2 to 256 identifier
  characters, the at sign, a domain of 2 to 64 letters.
\<close>

definition is_handle :: "string \<Rightarrow> bool" where
  "is_handle h \<longleftrightarrow>
     (\<exists>l d. h = l @ CHR ''@'' # d
        \<and> 2 \<le> length l \<and> length l \<le> 256 \<and> (\<forall>c \<in> set l. is_local_char c)
        \<and> 2 \<le> length d \<and> length d \<le> 64 \<and> (\<forall>c \<in> set d. is_alpha c))"

text \<open>\<open>x in v\<close> and \<open>v += x\<close> for a string \<open>x\<close> and any value \<open>v\<close>.\<close>

fun str_in :: "string \<Rightarrow> pyval \<Rightarrow> error + bool" where
  "str_in x (PStr s) = Inr (str_contains x s)"
| "str_in x (PList vs) = Inr (PStr x \<in> set vs)"
| "str_in x (PDict kvs) = Inr (x \<in> fst ` set kvs)"
| "str_in x _ = Inl TypeError"

fun iadd_str :: "pyval \<Rightarrow> string \<Rightarrow> error + pyval" where
  "iadd_str (PStr s) x = Inr (PStr (s @ x))"
| "iadd_str (PList vs) x = Inr (PList (vs @ map (\<lambda>c. PStr [c]) x))"
| "iadd_str _ x = Inl TypeError"

text \<open>\<open>a or b\<close> for an optional string \<open>a\<close>: \<open>None\<close> and the empty string are false.\<close>

definition or_else :: "string option \<Rightarrow> string \<Rightarrow> string" where
  "or_else a b = (case a of None \<Rightarrow> b | Some x \<Rightarrow> if x = [] then b else x)"

definition bait_keywords :: "string list" where
  "bait_keywords = [''screenshot'', ''proof'', ''photo'', ''payment done'']"

definition is_bait :: "string \<Rightarrow> bool" where
  "is_bait safe_msg = list_ex (\<lambda>x. str_contains x (lower safe_msg)) bait_keywords"

definition trap_record :: "string \<Rightarrow> trap" where
  "trap_record filename = \<lparr>trap_type = ''fake_proof'', trap_file = filename, timestamp = ''now''\<rparr>"

definition directive_turn :: "string \<Rightarrow> turn" where
  "directive_turn img_url =
     \<lparr>role = System,
      content = PStr (''[SYSTEM INSTRUCTION]: You have just successfully generated a fake GPay payment screenshot. The file link is ''
                      @ [CHR 0x27] @ img_url @ [CHR 0x27]
                      @ ''. You MUST send this link to the user now. Say 'Here is the screenshot' or similar.'')\<rparr>"

text \<open>Lines 120 to 131: a session for an id not seen before.\<close>

definition ensure_session :: "world \<Rightarrow> chat_request \<Rightarrow> error + world" where
  "ensure_session w request =
     (case sessions w (session_id request) of
        Some s \<Rightarrow> Inr w
      | None \<Rightarrow>
          (case select_persona (persona_mgr w) (persona_objs w) (message request) of
             (Inl e, h') \<Rightarrow> Inl e
           | (Inr p, h') \<Rightarrow>
               Inr (w\<lparr>persona_objs := h',
                      sessions := (sessions w)(session_id request \<mapsto>
                        \<lparr>history = [\<lparr>role = System, content = PStr (system_prompt (h' ! p))\<rparr>],
                         persona = p,
                         ip_log = [],
                         traps_triggered = [],
                         extracted_upi = None,
                         last_classification = None\<rparr>)\<rparr>)))"

text \<open>
  Lines 138 to 185 on the session: the handle, the user's turn, the classification and
  the trap. The result is the session, \<open>img_url\<close> and the render requested.
\<close>

definition process_message ::
  "session \<Rightarrow> string \<Rightarrow> chat_env \<Rightarrow> session \<times> string option \<times> event list" where
  "process_message session0 safe_msg env =
     (let s1 = (case extract_upi safe_msg of
                  None \<Rightarrow> session0
                | Some found_upi \<Rightarrow>
                    if found_upi = [] then session0 else session0\<lparr>extracted_upi := Some found_upi\<rparr>);
          s2 = s1\<lparr>history := history s1 @ [\<lparr>role = User, content = PStr safe_msg\<rparr>]\<rparr>;
          s3 = (case env_classification env of
                  None \<Rightarrow> s2
                | Some c \<Rightarrow> s2\<lparr>last_classification := Some c\<rparr>)
      in if is_bait safe_msg
         then (let target_upi = or_else (extracted_upi s3) ''scammer@bank'';
                   filename = env_proof_file env;
                   img_url = ''/proof/'' @ filename;
                   s4 = s3\<lparr>traps_triggered := traps_triggered s3 @ [trap_record filename]\<rparr>;
                   s5 = s4\<lparr>history := history s4 @ [directive_turn img_url]\<rparr>
               in (s5, Some img_url, [Render_Proof ''5000'' target_upi]))
         else (s3, None, []))"

text \<open>Lines 196 and 197: the attachment line when the reply does not hold the link.\<close>

definition attachment :: "string \<Rightarrow> string" where
  "attachment img_url = ''\<newline>\<newline>[Attachment]: '' @ img_url"

definition finish_reply :: "string option \<Rightarrow> pyval \<Rightarrow> error + pyval" where
  "finish_reply img_url response_text =
     (case img_url of
        None \<Rightarrow> Inr response_text
      | Some url \<Rightarrow>
          if url = [] then Inr response_text
          else (case str_in url response_text of
                  Inl e \<Rightarrow> Inl e
                | Inr True \<Rightarrow> Inr response_text
                | Inr False \<Rightarrow> iadd_str response_text (attachment url)))"

text \<open>
  \<open>chat_endpoint\<close>, one request handled from start to end. An exception leaves the
  globals as they were changed up to it.
\<close>

definition chat_endpoint ::
  "world \<Rightarrow> chat_request \<Rightarrow> chat_env \<Rightarrow> (error + pyval) \<times> world \<times> event list" where
  "chat_endpoint w request env =
     (case ensure_session w request of
        Inl e \<Rightarrow> (Inl e, w, [])
      | Inr w0 \<Rightarrow>
          (case sessions w0 (session_id request) of
             None \<Rightarrow> (Inl KeyError, w0, [])
           | Some session0 \<Rightarrow>
               (case process_message session0 (redact_pii (env_analysis env) (message request)) env of
                  (session1, img_url, tr1) \<Rightarrow>
                    (case chat_completion (key_mgr w0) (history session1) (env_groq env) (env_secondary env) of
                       (r, km', tr2) \<Rightarrow>
                         (let w1 = w0\<lparr>sessions := (sessions w0)(session_id request \<mapsto> session1),
                                       key_mgr := km'\<rparr>
                          in case r of
                               Inl e \<Rightarrow> (Inl e, w1, tr1 @ tr2)
                             | Inr response_text \<Rightarrow>
                                 (case finish_reply img_url response_text of
                                    Inl e \<Rightarrow> (Inl e, w1, tr1 @ tr2)
                                  | Inr final \<Rightarrow>
                                      (Inr final,
                                       w1\<lparr>sessions := (sessions w1)(session_id request \<mapsto>
                                            session1\<lparr>history := history session1
                                               @ [\<lparr>role = Assistant, content = final\<rparr>]\<rparr>)\<rparr>,
                                       tr1 @ tr2)))))))"

text \<open>
  \<open>upload_media\<close>: the description comes from the media handler, whose two functions
  return a text whatever happens.
\<close>

record media_env =
  content_type :: "string option"
  audio_description :: string
  image_description :: string

definition type_mentions :: "string option \<Rightarrow> string \<Rightarrow> bool" where
  "type_mentions ct kind = (case ct of None \<Rightarrow> False | Some t \<Rightarrow> t \<noteq> [] \<and> str_contains kind t)"

definition upload_media :: "world \<Rightarrow> string \<Rightarrow> media_env \<Rightarrow> (error + string) \<times> world" where
  "upload_media w sid env =
     (let description =
            (if type_mentions (content_type env) ''audio'' then audio_description env
             else if type_mentions (content_type env) ''image'' then image_description env
             else ''[Unsupported File Type]'')
      in case sessions w sid of
           Some s \<Rightarrow>
             (Inr description,
              w\<lparr>sessions := (sessions w)(sid \<mapsto> s\<lparr>history := history s @
                   [\<lparr>role = System,
                     content = PStr (''[System Observation]: User sent a file. Analysis: '' @ description)\<rparr>]\<rparr>)\<rparr>)
         | None \<Rightarrow> (Inr description, w))"

record report =
  report_session_id :: string
  persona_used :: string
  scammer_ip_logs :: "(string \<times> string) list"
  traps_deployed :: "trap list"
  chat_transcript :: "turn list"

definition get_report :: "world \<Rightarrow> string \<Rightarrow> error + report" where
  "get_report w sid =
     (case sessions w sid of
        None \<Rightarrow> Inl (HTTPException 404 ''Session not found'')
      | Some data \<Rightarrow>
          Inr \<lparr>report_session_id = sid,
               persona_used = name (persona_objs w ! persona data),
               scammer_ip_logs = ip_log data,
               traps_deployed = traps_triggered data,
               chat_transcript = history data\<rparr>)"

text \<open>The globals when the module has been loaded, from the four environment variables.\<close>

definition initial_world ::
  "string option \<Rightarrow> string option \<Rightarrow> string option \<Rightarrow> string option \<Rightarrow> world" where
  "initial_world k1 k2 k3 orkey =
     \<lparr>sessions = Map.empty,
      key_mgr = KeyManager_init k1 k2 k3 orkey,
      persona_mgr = fst PersonaManager_init,
      persona_objs = snd PersonaManager_init\<rparr>"

definition world_inv :: "world \<Rightarrow> bool" where
  "world_inv w \<longleftrightarrow> km_inv (key_mgr w) \<and> pm_wf (persona_mgr w) (persona_objs w)"

text \<open>Requests handled one after the other.\<close>

fun chat_many :: "world \<Rightarrow> (chat_request \<times> chat_env) list \<Rightarrow> world" where
  "chat_many w [] = w"
| "chat_many w ((request, env) # calls) = chat_many (fst (snd (chat_endpoint w request env))) calls"

definition traps_of :: "world \<Rightarrow> string \<Rightarrow> trap list" where
  "traps_of w sid = (case sessions w sid of None \<Rightarrow> [] | Some s \<Rightarrow> traps_triggered s)"

definition upi_of :: "world \<Rightarrow> string \<Rightarrow> string option" where
  "upi_of w sid = (case sessions w sid of None \<Rightarrow> None | Some s \<Rightarrow> extracted_upi s)"

definition history_of :: "world \<Rightarrow> string \<Rightarrow> turn list" where
  "history_of w sid = (case sessions w sid of None \<Rightarrow> [] | Some s \<Rightarrow> history s)"

text \<open>The events that ask the proof generator for an artifact.\<close>

definition is_render :: "event \<Rightarrow> bool" where
  "is_render e = (case e of Render_Proof amount upi \<Rightarrow> True | _ \<Rightarrow> False)"

text \<open>
  The file names that the proof generator returned for the triggering messages of one
  session in a list of calls.
\<close>

fun trigger_files :: "string \<Rightarrow> (chat_request \<times> chat_env) list \<Rightarrow> string list" where
  "trigger_files sid [] = []"
| "trigger_files sid ((request, env) # calls) =
     (if session_id request = sid \<and> is_bait (redact_pii (env_analysis env) (message request))
      then env_proof_file env # trigger_files sid calls
      else trigger_files sid calls)"


definition world_two :: world where
  "world_two = initial_world (Some ''gsk_a'') None (Some ''gsk_b'') (Some ''sk-or'')"

definition request_of :: "string \<Rightarrow> string \<Rightarrow> chat_request" where
  "request_of sid text = \<lparr>session_id = sid, message = text, sender = ''scammer''\<rparr>"

definition env_of :: "string \<Rightarrow> (nat \<Rightarrow> outcome) \<Rightarrow> chat_env" where
  "env_of filename provider =
     \<lparr>env_analysis = None, env_classification = None, env_proof_file = filename,
      env_groq = provider, env_secondary = Inl RequestError\<rparr>"

definition env_redacting :: "(nat \<times> nat) list \<Rightarrow> string \<Rightarrow> (nat \<Rightarrow> outcome) \<Rightarrow> chat_env" where
  "env_redacting spans filename provider =
     \<lparr>env_analysis = Some (Inr spans), env_classification = None, env_proof_file = filename,
      env_groq = provider, env_secondary = Inl RequestError\<rparr>"

definition media_of :: "string \<Rightarrow> media_env" where
  "media_of kind =
     \<lparr>content_type = Some kind, audio_description = ''[Audio Processing Failed]'',
      image_description = ''[Image Processing Failed]''\<rparr>"


section \<open>Properties of the completion gateway\<close>

subsection \<open>The key manager's invariant\<close>

lemma truthy_keys_nonempty: "[] \<notin> set (truthy_keys ks)"
  by (induction ks rule: truthy_keys.induct) auto

lemma km_inv_init: "km_inv (KeyManager_init k1 k2 k3 orkey)"
  by (simp add: km_inv_def KeyManager_init_def truthy_keys_nonempty del: truthy_keys.simps)

lemma rotate_fields:
  "groq_keys (fst (rotate_groq_key km)) = groq_keys km"
  "openrouter_key (fst (rotate_groq_key km)) = openrouter_key km"
  by (simp_all add: rotate_groq_key_def Let_def)

lemma rotate_km_inv: "km_inv km \<Longrightarrow> km_inv (fst (rotate_groq_key km))"
  by (auto simp: km_inv_def rotate_groq_key_def Let_def)

lemma rotate_nonempty:
  "groq_keys km \<noteq> [] \<Longrightarrow>
   rotate_groq_key km =
     (km\<lparr>current_groq_index := Suc (current_groq_index km) mod length (groq_keys km)\<rparr>,
      [Log_Rotated (Suc (current_groq_index km) mod length (groq_keys km))])"
  by (simp add: rotate_groq_key_def Let_def)

lemma current_key_inv:
  assumes "km_inv km" "groq_keys km \<noteq> []"
  shows "get_current_groq_key km = Inr (Some (groq_keys km ! current_groq_index km))"
    and "groq_keys km ! current_groq_index km \<noteq> []"
  using assms by (auto simp: get_current_groq_key_def km_inv_def dest: nth_mem)

lemma groq_loop_inv:
  "km_inv km \<Longrightarrow> groq_loop n a groq msgs km tr = (r, km', tr') \<Longrightarrow>
   km_inv km' \<and> groq_keys km' = groq_keys km \<and> openrouter_key km' = openrouter_key km
   \<and> (\<exists>x. r = Inr x)"
proof (induction n arbitrary: a km tr)
  case 0
  then show ?case by auto
next
  case (Suc n)
  show ?case
  proof (cases "groq_keys km = []")
    case True
    with Suc.prems show ?thesis by (auto simp: get_current_groq_key_def)
  next
    case False
    let ?km1 = "fst (rotate_groq_key km)"
    let ?key = "groq_keys km ! current_groq_index km"
    have inv1: "km_inv ?km1" using Suc.prems(1) by (rule rotate_km_inv)
    note cur = current_key_inv[OF Suc.prems(1) False]
    show ?thesis
    proof (cases "groq_try (groq a)")
      case (Return v)
      with Suc.prems cur show ?thesis by auto
    next
      case Rate_Limited
      with Suc.prems(2) cur have
        "groq_loop n (Suc a) groq msgs ?km1
           (tr @ [Groq_Post ?key msgs, Log_Rate_Limit (current_groq_index km)]
               @ snd (rotate_groq_key km)) = (r, km', tr')"
        by (simp add: case_prod_beta)
      from Suc.IH[OF inv1 this] show ?thesis by (simp add: rotate_fields)
    next
      case (Raised e)
      with Suc.prems(2) cur have
        "groq_loop n (Suc a) groq msgs ?km1
           (tr @ [Groq_Post ?key msgs, Log_Groq_Error (current_groq_index km)]
               @ snd (rotate_groq_key km)) = (r, km', tr')"
        by (simp add: case_prod_beta)
      from Suc.IH[OF inv1 this] show ?thesis by (simp add: rotate_fields)
    qed
  qed
qed

lemma groq_try_rate_limited:
  "groq_try out = Rate_Limited \<longleftrightarrow> (\<exists>r. out = Inr r \<and> status_code r = 429)"
  by (cases out) (auto simp: groq_try_def split: sum.splits)

subsection \<open>A run of attempts that do not return\<close>

lemma upt_Suc_shift: "[0..<Suc n] = 0 # map Suc [0..<n]"
  by (simp add: upt_conv_Cons map_Suc_upt del: upt_Suc)

lemma groq_loop_failed_prefix:
  "km_inv km \<Longrightarrow> groq_keys km \<noteq> [] \<Longrightarrow> \<forall>j<k. \<not> is_Return (groq_try (groq (a + j))) \<Longrightarrow>
   groq_loop (k + m) a groq msgs km tr =
     groq_loop m (a + k) groq msgs
       (km\<lparr>current_groq_index := (current_groq_index km + k) mod length (groq_keys km)\<rparr>)
       (tr @ concat (map (failed_attempt (groq_keys km) msgs groq (current_groq_index km) a) [0..<k]))"
proof (induction k arbitrary: a km tr)
  case 0
  then show ?case by (simp add: km_inv_def)
next
  case (Suc k)
  let ?N = "length (groq_keys km)"
  let ?c = "current_groq_index km"
  let ?km1 = "km\<lparr>current_groq_index := Suc ?c mod ?N\<rparr>"
  have rot: "rotate_groq_key km = (?km1, [Log_Rotated (Suc ?c mod ?N)])"
    using Suc.prems(2) by (rule rotate_nonempty)
  have inv1: "km_inv ?km1" using rotate_km_inv[OF Suc.prems(1)] rot by simp
  have ne1: "groq_keys ?km1 \<noteq> []" using Suc.prems(2) by simp
  have fails1: "\<forall>j<k. \<not> is_Return (groq_try (groq (Suc a + j)))"
    using Suc.prems(3) by auto
  have cl: "?c < ?N" using Suc.prems(1,2) by (simp add: km_inv_def)
  note cur = current_key_inv[OF Suc.prems(1,2)]
  have f0: "\<not> is_Return (groq_try (groq a))" using Suc.prems(3) by force
  have shift: "failed_attempt (groq_keys km) msgs groq (Suc ?c mod ?N) (Suc a) j
             = failed_attempt (groq_keys km) msgs groq ?c a (Suc j)" for j
    using mod_add_left_eq[of "Suc ?c" ?N j]
    by (simp add: failed_attempt_def Let_def)
  have split: "map (failed_attempt (groq_keys km) msgs groq ?c a) [0..<Suc k]
      = failed_attempt (groq_keys km) msgs groq ?c a 0
        # map (failed_attempt (groq_keys km) msgs groq (Suc ?c mod ?N) (Suc a)) [0..<k]"
    by (simp add: upt_Suc_shift shift o_def del: upt_Suc)
  have idx: "(Suc ?c mod ?N + k) mod ?N = Suc (?c + k) mod ?N"
    using mod_add_left_eq[of "Suc ?c" ?N k] by simp
  have first: "failed_attempt (groq_keys km) msgs groq ?c a 0 =
      [Groq_Post (groq_keys km ! ?c) msgs,
       (if groq_try (groq a) = Rate_Limited then Log_Rate_Limit ?c else Log_Groq_Error ?c),
       Log_Rotated (Suc ?c mod ?N)]"
    using cl by (simp add: failed_attempt_def Let_def)
  show ?case
  proof (cases "groq_try (groq a)")
    case (Return v)
    with f0 show ?thesis by (simp add: is_Return_def)
  next
    case Rate_Limited
    then show ?thesis
      using Suc.IH[OF inv1 ne1 fails1] cur rot
      by (simp add: split first idx del: upt_Suc)
  next
    case (Raised e)
    then show ?thesis
      using Suc.IH[OF inv1 ne1 fails1] cur rot
      by (simp add: split first idx del: upt_Suc)
  qed
qed

lemma groq_loop_all_fail:
  assumes "km_inv km" "groq_keys km \<noteq> []" "\<forall>j<n. \<not> is_Return (groq_try (groq j))"
  shows "groq_loop n 0 groq msgs km [] =
     (Inr None,
      km\<lparr>current_groq_index := (current_groq_index km + n) mod length (groq_keys km)\<rparr>,
      concat (map (failed_attempt (groq_keys km) msgs groq (current_groq_index km) 0) [0..<n]))"
  using groq_loop_failed_prefix[where km=km and k=n and a=0 and groq=groq and m=0 and msgs=msgs and tr="[]"] assms by simp



lemma cursor_walk_inj:
  assumes "i \<le> j" "j < N" "(c + i) mod N = (c + j) mod N"
  shows "i = (j::nat)"
proof -
  have "N dvd (c + j) - (c + i)"
    using assms(1,3) mod_eq_dvd_iff_nat[of "c + i" "c + j" N] by simp
  then have "N dvd j - i" by simp
  moreover have "j - i < N" using assms(2) by simp
  ultimately have "j - i = 0" using nat_dvd_not_less by blast
  with assms(1) show ?thesis by simp
qed

lemma cursor_walk_permutation:
  assumes "0 < N"
  shows "distinct (map (\<lambda>j. (c + j) mod N) [0..<N]) \<and> set (map (\<lambda>j. (c + j) mod N) [0..<N]) = {0..<N}"
proof -
  have inj: "inj_on (\<lambda>j. (c + j) mod N) {0..<N}"
  proof (rule inj_onI)
    fix i j assume i: "i \<in> {0..<N}" and j: "j \<in> {0..<N}" and e: "(c + i) mod N = (c + j) mod N"
    show "i = j"
    proof (cases "i \<le> j")
      case True
      with j e show ?thesis using cursor_walk_inj[of i j N c] by simp
    next
      case False
      with i e show ?thesis using cursor_walk_inj[of j i N c] by simp
    qed
  qed
  have sub: "(\<lambda>j. (c + j) mod N) ` {0..<N} \<subseteq> {0..<N}" using assms by auto
  have "(\<lambda>j. (c + j) mod N) ` {0..<N} = {0..<N}"
    using endo_inj_surj[OF _ sub inj] by simp
  with inj show ?thesis by (simp add: distinct_map)
qed


lemma chat_completion_never_raises:
  assumes "km_inv km"
  shows "\<exists>v. fst (chat_completion km msgs groq sec) = Inr v"
proof -
  obtain r km' tr where l: "groq_loop (length (groq_keys km)) 0 groq msgs km [] = (r, km', tr)"
    by (cases "groq_loop (length (groq_keys km)) 0 groq msgs km []") auto
  from groq_loop_inv[OF assms l] obtain x where "r = Inr x" by blast
  with l show ?thesis
    by (cases x) (simp_all add: chat_completion_def case_prod_beta)
qed

lemma chat_completion_km_inv:
  assumes "km_inv km"
  shows "km_inv (fst (snd (chat_completion km msgs groq sec)))"
proof -
  obtain r km' tr where l: "groq_loop (length (groq_keys km)) 0 groq msgs km [] = (r, km', tr)"
    by (cases "groq_loop (length (groq_keys km)) 0 groq msgs km []") auto
  from groq_loop_inv[OF assms l] have "km_inv km'" by blast
  with l show ?thesis
    by (simp add: chat_completion_def case_prod_beta split: sum.splits option.splits)
qed

subsection \<open>Calls in flight\<close>

lemma run_schedule_done:
  assumes "i < length cs" "c_task (cs ! i) = Finished r \<or> c_task (cs ! i) = Crashed e"
  shows "run_schedule km cs (replicate k i) = (km, cs)"
proof (induction k)
  case 0
  show ?case by simp
next
  case (Suc k)
  have "call_step km (cs ! i) = (km, cs ! i)"
    using assms(2) by (auto simp: call_step_def)
  with Suc assms(1) show ?case by simp
qed

lemma run_schedule_step:
  "i < length cs \<Longrightarrow> call_step km (cs ! i) = (km', c') \<Longrightarrow>
   run_schedule km cs (i # sched) = run_schedule km' (cs[i := c']) sched"
  by simp

lemma run_uninterrupted:
  "i < length cs \<Longrightarrow>
   cs ! i = \<lparr>c_task = Ready n a, c_msgs = msgs, c_groq = groq, c_trace = tr\<rparr> \<Longrightarrow>
   run_schedule km cs (replicate (2 * n + 1) i) =
     (fst (snd (groq_loop n a groq msgs km tr)),
      cs[i := \<lparr>c_task = task_of_result (fst (groq_loop n a groq msgs km tr)),
               c_msgs = msgs, c_groq = groq,
               c_trace = snd (snd (groq_loop n a groq msgs km tr))\<rparr>])"
proof (induction n arbitrary: a km tr cs)
  case 0
  then show ?case by (simp add: call_step_def task_of_result_def)
next
  case (Suc n)
  have rep1: "replicate (2 * Suc n + 1) i = i # replicate (2 * n + 2) i" by simp
  have rep2: "replicate (2 * Suc n + 1) i = i # i # replicate (2 * n + 1) i" by simp
  note i = Suc.prems(1)
  note ci = Suc.prems(2)
  show ?case
  proof (cases "get_current_groq_key km")
    case (Inl e)
    let ?c1 = "\<lparr>c_task = Crashed e, c_msgs = msgs, c_groq = groq, c_trace = tr\<rparr>"
    have st: "call_step km (cs ! i) = (km, ?c1)" by (simp add: ci call_step_def Inl)
    have run: "run_schedule km cs (replicate (2 * Suc n + 1) i) = (km, cs[i := ?c1])"
    proof -
      have "run_schedule km cs (i # replicate (2 * n + 2) i)
          = run_schedule km (cs[i := ?c1]) (replicate (2 * n + 2) i)"
        using i st by (rule run_schedule_step)
      also have "\<dots> = (km, cs[i := ?c1])"
        by (rule run_schedule_done[where e=e and r=None]) (simp_all add: i)
      finally show ?thesis by (simp only: rep1)
    qed
    have l: "groq_loop (Suc n) a groq msgs km tr = (Inl e, km, tr)" by (simp add: Inl)
    show ?thesis unfolding run l by (simp add: task_of_result_def)
  next
    case (Inr ko)
    show ?thesis
    proof (cases "ko = None \<or> ko = Some []")
      case True
      let ?c1 = "\<lparr>c_task = Finished None, c_msgs = msgs, c_groq = groq, c_trace = tr\<rparr>"
      have st: "call_step km (cs ! i) = (km, ?c1)"
        using True by (auto simp: ci call_step_def Inr)
      have run: "run_schedule km cs (replicate (2 * Suc n + 1) i) = (km, cs[i := ?c1])"
      proof -
        have "run_schedule km cs (i # replicate (2 * n + 2) i)
            = run_schedule km (cs[i := ?c1]) (replicate (2 * n + 2) i)"
          using i st by (rule run_schedule_step)
        also have "\<dots> = (km, cs[i := ?c1])"
          by (rule run_schedule_done[where e=IndexError and r=None]) (simp_all add: i)
        finally show ?thesis by (simp only: rep1)
      qed
      have l: "groq_loop (Suc n) a groq msgs km tr = (Inr None, km, tr)"
        using True by (auto simp: Inr)
      show ?thesis unfolding run l by (simp add: task_of_result_def)
    next
      case False
      then obtain key where ko: "ko = Some key" and kne: "key \<noteq> []" by (cases ko) auto
      let ?c1 = "\<lparr>c_task = Waiting n a, c_msgs = msgs, c_groq = groq,
                  c_trace = tr @ [Groq_Post key msgs]\<rparr>"
      have st1: "call_step km (cs ! i) = (km, ?c1)"
        by (simp add: ci call_step_def Inr ko kne)
      have len1: "i < length (cs[i := ?c1])" using i by simp
      have first: "run_schedule km cs (replicate (2 * Suc n + 1) i)
                 = run_schedule km (cs[i := ?c1]) (i # replicate (2 * n + 1) i)"
      proof -
        have "run_schedule km cs (i # i # replicate (2 * n + 1) i)
            = run_schedule km (cs[i := ?c1]) (i # replicate (2 * n + 1) i)"
          using i st1 by (rule run_schedule_step)
        then show ?thesis by (simp only: rep2)
      qed
      show ?thesis
      proof (cases "groq_try (groq a)")
        case (Return v)
        let ?c2 = "\<lparr>c_task = Finished (Some v), c_msgs = msgs, c_groq = groq,
                    c_trace = tr @ [Groq_Post key msgs]\<rparr>"
        have st2: "call_step km (cs[i := ?c1] ! i) = (km, ?c2)"
          using i by (simp add: call_step_def Return)
        have "run_schedule km (cs[i := ?c1]) (i # replicate (2 * n + 1) i)
            = run_schedule km (cs[i := ?c1, i := ?c2]) (replicate (2 * n + 1) i)"
          using len1 st2 by (rule run_schedule_step)
        also have "\<dots> = (km, cs[i := ?c1, i := ?c2])"
          by (rule run_schedule_done[where e=IndexError and r="Some v"]) (simp_all add: i)
        finally have run: "run_schedule km cs (replicate (2 * Suc n + 1) i) = (km, cs[i := ?c2])"
          unfolding first by simp
        have l: "groq_loop (Suc n) a groq msgs km tr = (Inr (Some v), km, tr @ [Groq_Post key msgs])"
          by (simp add: Inr ko kne Return)
        show ?thesis unfolding run l by (simp add: task_of_result_def)
      next
        case Rate_Limited
        let ?km' = "fst (rotate_groq_key km)"
        let ?tr2 = "(tr @ [Groq_Post key msgs]) @ Log_Rate_Limit (current_groq_index km)
                      # snd (rotate_groq_key km)"
        let ?c2 = "\<lparr>c_task = Ready n (Suc a), c_msgs = msgs, c_groq = groq, c_trace = ?tr2\<rparr>"
        have st2: "call_step km (cs[i := ?c1] ! i) = (?km', ?c2)"
          using i by (simp add: call_step_def Rate_Limited case_prod_beta)
        have at2: "cs[i := ?c2] ! i = ?c2" and len2: "i < length (cs[i := ?c2])" using i by simp_all
        have l: "groq_loop (Suc n) a groq msgs km tr = groq_loop n (Suc a) groq msgs ?km' ?tr2"
          by (simp add: Inr ko kne Rate_Limited case_prod_beta)
        have "run_schedule km (cs[i := ?c1]) (i # replicate (2 * n + 1) i)
            = run_schedule ?km' (cs[i := ?c1, i := ?c2]) (replicate (2 * n + 1) i)"
          using len1 st2 by (rule run_schedule_step)
        then have run: "run_schedule km cs (replicate (2 * Suc n + 1) i)
                 = run_schedule ?km' (cs[i := ?c2]) (replicate (2 * n + 1) i)"
          unfolding first by simp
        show ?thesis
          unfolding run l using Suc.IH[OF len2 at2, of ?km'] by simp
      next
        case (Raised e)
        let ?km' = "fst (rotate_groq_key km)"
        let ?tr2 = "(tr @ [Groq_Post key msgs]) @ Log_Groq_Error (current_groq_index km)
                      # snd (rotate_groq_key km)"
        let ?c2 = "\<lparr>c_task = Ready n (Suc a), c_msgs = msgs, c_groq = groq, c_trace = ?tr2\<rparr>"
        have st2: "call_step km (cs[i := ?c1] ! i) = (?km', ?c2)"
          using i by (simp add: call_step_def Raised case_prod_beta)
        have at2: "cs[i := ?c2] ! i = ?c2" and len2: "i < length (cs[i := ?c2])" using i by simp_all
        have l: "groq_loop (Suc n) a groq msgs km tr = groq_loop n (Suc a) groq msgs ?km' ?tr2"
          by (simp add: Inr ko kne Raised case_prod_beta)
        have "run_schedule km (cs[i := ?c1]) (i # replicate (2 * n + 1) i)
            = run_schedule ?km' (cs[i := ?c1, i := ?c2]) (replicate (2 * n + 1) i)"
          using len1 st2 by (rule run_schedule_step)
        then have run: "run_schedule km cs (replicate (2 * Suc n + 1) i)
                 = run_schedule ?km' (cs[i := ?c2]) (replicate (2 * n + 1) i)"
          unfolding first by simp
        show ?thesis
          unfolding run l using Suc.IH[OF len2 at2, of ?km'] by simp
      qed
    qed
  qed
qed

text \<open>
  Claim C1 (the gateway returns a string and never raises). The second half holds: see
  \<open>chat_completion_never_raises\<close>. The first does not: when the first credential's
  request is answered with status 200 and a body whose \<open>content\<close> is \<open>null\<close>, the
  gateway returns \<open>None\<close>, whatever the transcript and the secondary provider are.
\<close>

theorem chat_completion_returns_none:
  "fst (chat_completion km_two msgs always_null_content sec) = Inr PNone"
  by (simp add: chat_completion_def km_two_def KeyManager_init_def get_current_groq_key_def
      always_null_content_def null_content_body_def groq_try_def raise_for_status_def
      reply_content_def response_json_def)

text \<open>
  Claim C2, amended. Take a call whose steps run with no step of another call in
  between. With a non-empty pool of \<open>N\<close> credentials and the cursor at \<open>c\<close>, if every
  one of its \<open>N\<close> primary requests is answered with a rate limit, then attempt \<open>j\<close> uses
  the credential at \<open>(c + j) mod N\<close> and rotates once, these \<open>N\<close> positions are each
  position of the pool exactly once, the cursor ends where it started, and the failover
  comes after the last rotation. The last part states the walk on the steps themselves,
  whatever other calls are waiting meanwhile.
\<close>

theorem all_rate_limited_walk:
  assumes "km_inv km" and "groq_keys km \<noteq> []"
    and "\<forall>a<length (groq_keys km). groq_try (groq a) = Rate_Limited"
  shows "chat_completion km msgs groq sec =
           (Inr (fst (openrouter_failover km msgs sec)), km,
            concat (map (\<lambda>j. [Groq_Post (groq_keys km ! ((current_groq_index km + j) mod length (groq_keys km))) msgs,
                              Log_Rate_Limit ((current_groq_index km + j) mod length (groq_keys km)),
                              Log_Rotated (((current_groq_index km + j) mod length (groq_keys km) + 1)
                                             mod length (groq_keys km))])
                        [0..<length (groq_keys km)])
              @ snd (openrouter_failover km msgs sec))
         \<and> hd (snd (openrouter_failover km msgs sec)) = Log_Failover
         \<and> distinct (map (\<lambda>j. (current_groq_index km + j) mod length (groq_keys km))
                          [0..<length (groq_keys km)])
         \<and> set (map (\<lambda>j. (current_groq_index km + j) mod length (groq_keys km))
                     [0..<length (groq_keys km)]) = {0..<length (groq_keys km)}
         \<and> (i < length cs \<and> cs ! i = new_call (length (groq_keys km)) msgs groq \<longrightarrow>
              run_schedule km cs (replicate (2 * length (groq_keys km) + 1) i) =
                (km,
                 cs[i := \<lparr>c_task = Finished None, c_msgs = msgs, c_groq = groq,
                          c_trace =
                            concat (map (\<lambda>j. [Groq_Post (groq_keys km ! ((current_groq_index km + j) mod length (groq_keys km))) msgs,
                                              Log_Rate_Limit ((current_groq_index km + j) mod length (groq_keys km)),
                                              Log_Rotated (((current_groq_index km + j) mod length (groq_keys km) + 1)
                                                             mod length (groq_keys km))])
                                        [0..<length (groq_keys km)])\<rparr>]))"
proof -
  let ?N = "length (groq_keys km)"
  let ?c = "current_groq_index km"
  let ?walk = "concat (map (\<lambda>j. [Groq_Post (groq_keys km ! ((?c + j) mod ?N)) msgs,
                        Log_Rate_Limit ((?c + j) mod ?N),
                        Log_Rotated (((?c + j) mod ?N + 1) mod ?N)]) [0..<?N])"
  have fails: "\<forall>j<?N. \<not> is_Return (groq_try (groq j))"
    using assms(3) by (simp add: is_Return_def)
  have c: "?c < ?N" using assms(1,2) by (simp add: km_inv_def)
  have wrapped: "km\<lparr>current_groq_index := (?c + ?N) mod ?N\<rparr> = km" using c by simp
  have tr: "map (failed_attempt (groq_keys km) msgs groq ?c 0) [0..<?N]
          = map (\<lambda>j. [Groq_Post (groq_keys km ! ((?c + j) mod ?N)) msgs,
                        Log_Rate_Limit ((?c + j) mod ?N),
                        Log_Rotated (((?c + j) mod ?N + 1) mod ?N)]) [0..<?N]"
    using assms(3) by (simp add: failed_attempt_def Let_def)
  have loop: "groq_loop ?N 0 groq msgs km [] = (Inr None, km, ?walk)"
    using groq_loop_all_fail[OF assms(1,2) fails, of msgs] by (simp only: wrapped tr)
  have whole: "chat_completion km msgs groq sec =
           (Inr (fst (openrouter_failover km msgs sec)), km,
            ?walk @ snd (openrouter_failover km msgs sec))"
    using loop by (simp add: chat_completion_def case_prod_beta)
  have first: "hd (snd (openrouter_failover km msgs sec)) = Log_Failover"
    by (simp add: openrouter_failover_def split: option.splits sum.splits)
  have "0 < ?N" using assms(2) by simp
  note perm = cursor_walk_permutation[OF this, of ?c]
  note once = perm[THEN conjunct1]
  note every = perm[THEN conjunct2]
  have steps: "i < length cs \<and> cs ! i = new_call ?N msgs groq \<longrightarrow>
              run_schedule km cs (replicate (2 * ?N + 1) i) =
                (km, cs[i := \<lparr>c_task = Finished None, c_msgs = msgs, c_groq = groq,
                             c_trace = ?walk\<rparr>])"
  proof
    assume h: "i < length cs \<and> cs ! i = new_call ?N msgs groq"
    then have i: "i < length cs"
      and ci: "cs ! i = \<lparr>c_task = Ready ?N 0, c_msgs = msgs, c_groq = groq, c_trace = []\<rparr>"
      by (simp_all add: new_call_def)
    show "run_schedule km cs (replicate (2 * ?N + 1) i) =
                (km, cs[i := \<lparr>c_task = Finished None, c_msgs = msgs, c_groq = groq,
                             c_trace = ?walk\<rparr>])"
      unfolding run_uninterrupted[OF i ci, of km] loop by (simp add: task_of_result_def)
  qed
  show ?thesis by (intro conjI) (fact whole first once every steps)+
qed

text \<open>
  Two credentials, both rate limited, the secondary provider answering \<open>ok\<close>: the reply
  is the secondary provider's and the cursor is back at 0 after two rotations; the five
  steps of the walk, taken in a row, visit both credentials.
\<close>

theorem all_rate_limited_walk_witness:
  "chat_completion km_two [] always_429 (Inr (Response 200 (Some (text_body ''ok'')))) =
     (Inr (PStr ''ok''), km_two,
      [Groq_Post ''gsk_a'' [], Log_Rate_Limit 0, Log_Rotated 1,
       Groq_Post ''gsk_b'' [], Log_Rate_Limit 1, Log_Rotated 0,
       Log_Failover, OpenRouter_Post ''sk-or'' []])
   \<and> current_groq_index km_two = 0 \<and> groq_keys km_two = [''gsk_a'', ''gsk_b'']
   \<and> run_schedule km_two [new_call 2 [] always_429] (replicate 5 0) =
       (km_two,
        [\<lparr>c_task = Finished None, c_msgs = [], c_groq = always_429,
          c_trace = [Groq_Post ''gsk_a'' [], Log_Rate_Limit 0, Log_Rotated 1,
                     Groq_Post ''gsk_b'' [], Log_Rate_Limit 1, Log_Rotated 0]\<rparr>])"
proof -
  have inv: "km_inv km_two" by (simp add: km_two_def km_inv_init)
  have ne: "groq_keys km_two \<noteq> []" by (simp add: km_two_def KeyManager_init_def)
  have rl: "\<forall>a<length (groq_keys km_two). groq_try (always_429 a) = Rate_Limited"
    by (simp add: always_429_def groq_try_def)
  have up: "[0..<2] = [0, Suc 0]" by (simp add: upt_conv_Cons)
  have n: "length (groq_keys km_two) = 2" and five: "2 * length (groq_keys km_two) + 1 = 5"
    by (simp_all add: km_two_def KeyManager_init_def)
  note w = all_rate_limited_walk[OF inv ne rl, where msgs="[]"
      and sec="Inr (Response 200 (Some (text_body ''ok'')))"
      and cs="[new_call 2 [] always_429]" and i=0]
  from w[THEN conjunct1]
  have a: "chat_completion km_two [] always_429 (Inr (Response 200 (Some (text_body ''ok'')))) =
     (Inr (PStr ''ok''), km_two,
      [Groq_Post ''gsk_a'' [], Log_Rate_Limit 0, Log_Rotated 1,
       Groq_Post ''gsk_b'' [], Log_Rate_Limit 1, Log_Rotated 0,
       Log_Failover, OpenRouter_Post ''sk-or'' []])"
    by (simp add: km_two_def KeyManager_init_def openrouter_failover_def openrouter_try_def
        raise_for_status_def reply_content_def response_json_def text_body_def up)
  have b: "current_groq_index km_two = 0" and c: "groq_keys km_two = [''gsk_a'', ''gsk_b'']"
    by (simp_all add: km_two_def KeyManager_init_def)
  from w[THEN conjunct2, THEN conjunct2, THEN conjunct2, THEN conjunct2]
  have "run_schedule km_two [new_call 2 [] always_429] (replicate 5 0) =
       (km_two,
        [\<lparr>c_task = Finished None, c_msgs = [], c_groq = always_429,
          c_trace = concat (map (\<lambda>j. [Groq_Post (groq_keys km_two ! ((current_groq_index km_two + j) mod 2)) [],
                                       Log_Rate_Limit ((current_groq_index km_two + j) mod 2),
                                       Log_Rotated (((current_groq_index km_two + j) mod 2 + 1) mod 2)])
                                 [0..<2])\<rparr>])"
    unfolding five n by simp
  then have d: "run_schedule km_two [new_call 2 [] always_429] (replicate 5 0) =
       (km_two,
        [\<lparr>c_task = Finished None, c_msgs = [], c_groq = always_429,
          c_trace = [Groq_Post ''gsk_a'' [], Log_Rate_Limit 0, Log_Rotated 1,
                     Groq_Post ''gsk_b'' [], Log_Rate_Limit 1, Log_Rotated 0]\<rparr>])"
    by (simp add: b c up)
  show ?thesis by (intro conjI) (fact a b c d)+
qed

text \<open>
  Claim C2 as stated fails when two calls are in flight. Both calls find every request
  rate limited; the second call of the list sends its first request, the first call
  sends its own and both rotate, and the second call then finds the cursor back at 0:
  it sends both its requests with the first credential, never the second, and goes on
  to the failover.
\<close>

theorem interleaved_walk_repeats_credential:
  "run_schedule km_two [new_call 2 [] always_429, new_call 2 [] always_429] [1, 0, 1, 0, 1, 1, 1]
     = (km_two\<lparr>current_groq_index := 1\<rparr>,
        [\<lparr>c_task = Ready 1 1, c_msgs = [], c_groq = always_429,
          c_trace = [Groq_Post ''gsk_a'' [], Log_Rate_Limit 1, Log_Rotated 0]\<rparr>,
         \<lparr>c_task = Finished None, c_msgs = [], c_groq = always_429,
          c_trace = [Groq_Post ''gsk_a'' [], Log_Rate_Limit 0, Log_Rotated 1,
                     Groq_Post ''gsk_a'' [], Log_Rate_Limit 0, Log_Rotated 1]\<rparr>])"
proof -
  have rl: "groq_try (always_429 a) = Rate_Limited" for a
    by (simp add: always_429_def groq_try_def)
  show ?thesis
    by (simp add: km_two_def KeyManager_init_def new_call_def call_step_def eval_nat_numeral
        get_current_groq_key_def rotate_groq_key_def rl)
qed




text \<open>
  Claim C3, amended. When no primary attempt returns, the gateway returns one fixed text
  when no secondary credential is configured and another fixed text when the secondary
  request fails; the two texts differ.
\<close>

theorem exhausted_pool_messages:
  assumes "km_inv km" and "\<forall>a<length (groq_keys km). \<not> is_Return (groq_try (groq a))"
  shows "(no_secondary km \<longrightarrow>
            fst (chat_completion km msgs groq sec) = Inr (PStr no_keys_message))
       \<and> (\<not> no_secondary km \<and> isl (openrouter_try sec) \<longrightarrow>
            fst (chat_completion km msgs groq sec) = Inr (PStr trouble_message))
       \<and> no_keys_message \<noteq> trouble_message"
proof -
  have loop: "\<exists>km' tr. groq_loop (length (groq_keys km)) 0 groq msgs km [] = (Inr None, km', tr)
                \<and> openrouter_key km' = openrouter_key km"
  proof (cases "groq_keys km = []")
    case True
    then show ?thesis by simp
  next
    case False
    from groq_loop_all_fail[OF assms(1) False assms(2), of msgs] show ?thesis by simp
  qed
  then obtain km' tr where l: "groq_loop (length (groq_keys km)) 0 groq msgs km [] = (Inr None, km', tr)"
    and o: "openrouter_key km' = openrouter_key km" by blast
  have "fst (chat_completion km msgs groq sec) = Inr (fst (openrouter_failover km' msgs sec))"
    by (simp add: chat_completion_def l case_prod_beta)
  moreover have "no_secondary km \<Longrightarrow> fst (openrouter_failover km' msgs sec) = PStr no_keys_message"
    by (auto simp: no_secondary_def openrouter_failover_def o split: option.splits)
  moreover have "\<not> no_secondary km \<Longrightarrow> isl (openrouter_try sec) \<Longrightarrow>
      fst (openrouter_failover km' msgs sec) = PStr trouble_message"
    by (auto simp: no_secondary_def openrouter_failover_def o isl_def split: option.splits sum.splits)
  moreover have "no_keys_message \<noteq> trouble_message"
    by (simp add: no_keys_message_def trouble_message_def)
  ultimately show ?thesis by simp
qed

text \<open>
  Both terminal cases on concrete managers.
\<close>

theorem exhausted_pool_messages_witness:
  "fst (chat_completion km_none [] always_429 (Inl RequestError))
     = Inr (PStr ''Server Error: No valid API keys available.'')
   \<and> fst (chat_completion km_two [] always_429 (Inl RequestError))
     = Inr (PStr ''I am having trouble connecting. Can you say that again?'')"
proof -
  have i1: "km_inv km_none" and i2: "km_inv km_two"
    by (simp_all add: km_none_def km_two_def km_inv_init)
  have f1: "\<forall>a<length (groq_keys km_none). \<not> is_Return (groq_try (always_429 a))"
   and f2: "\<forall>a<length (groq_keys km_two). \<not> is_Return (groq_try (always_429 a))"
    by (simp_all add: always_429_def groq_try_def is_Return_def)
  have n1: "no_secondary km_none" and n2: "\<not> no_secondary km_two"
    by (simp_all add: no_secondary_def km_none_def km_two_def KeyManager_init_def)
  have s: "isl (openrouter_try (Inl RequestError))" by (simp add: openrouter_try_def)
  from exhausted_pool_messages[OF i1 f1, of "[]" "Inl RequestError"]
       exhausted_pool_messages[OF i2 f2, of "[]" "Inl RequestError"] n1 n2 s
  show ?thesis by (simp add: no_keys_message_def trouble_message_def)
qed

text \<open>
  Claim C3 as stated fails: with no credential at all and with every provider failing,
  the texts returned are not the same.
\<close>

theorem degraded_messages_differ:
  "fst (chat_completion km_none [] always_429 (Inl RequestError))
     \<noteq> fst (chat_completion km_two [] always_429 (Inl RequestError))"
  by (simp add: chat_completion_def km_none_def km_two_def KeyManager_init_def
      get_current_groq_key_def rotate_groq_key_def always_429_def groq_try_def
      openrouter_failover_def openrouter_try_def no_keys_message_def trouble_message_def)

section \<open>Properties of persona selection\<close>

lemma str_contains_sublist: "str_contains w s \<longleftrightarrow> sublist w s"
  by (induction s) (simp_all add: sublist_Cons_right)

lemma copy_with_directive_eq:
  "copy_with_directive pm h p =
     (length h, h @ [(h ! p)\<lparr>system_prompt := system_prompt (h ! p) @ hinglish_directive pm\<rparr>])"
  by (simp add: copy_with_directive_def Let_def)

lemma scan_personas_find:
  "scan_personas pm h (lower m) cat =
     (case find (persona_matches m) (map (\<lambda>(k, a). h ! a) cat) of
        None \<Rightarrow> None
      | Some p \<Rightarrow> Some (length h, h @ [p\<lparr>system_prompt := system_prompt p @ hinglish_directive pm\<rparr>]))"
proof (induction cat)
  case Nil
  show ?case by simp
next
  case (Cons ka cat)
  obtain k a where ka: "ka = (k, a)" by (cases ka)
  have "list_ex (\<lambda>word. str_contains word (lower m)) (trigger_words (h ! a))
        \<longleftrightarrow> persona_matches m (h ! a)"
    by (simp add: list_ex_iff persona_matches_def str_contains_sublist)
  with Cons.IH show ?case
    by (simp add: ka copy_with_directive_eq)
qed

lemma select_persona_spec:
  assumes "map_of (personas pm) ''grandma'' = Some g"
  shows "select_persona pm h m =
           (Inr (length h), h @ [select_spec (hinglish_directive pm) (catalog pm h) (h ! g) m])"
  by (simp add: select_persona_def Let_def scan_personas_find assms catalog_def select_spec_def
      copy_with_directive_eq split: option.splits)

lemma catalog_append:
  assumes "\<forall>(k, a) \<in> set (personas pm). a < length h"
  shows "catalog pm (h @ hs) = catalog pm h"
  using assms by (auto simp: catalog_def nth_append)

lemma pm_wf_append: "pm_wf pm h \<Longrightarrow> pm_wf pm (h @ hs)"
  by (fastforce simp: pm_wf_def)

lemma grandma_in_range:
  assumes "pm_wf pm h" "map_of (personas pm) ''grandma'' = Some g"
  shows "g < length h"
  using assms map_of_SomeD[OF assms(2)] by (fastforce simp: pm_wf_def)

lemma select_all_closed:
  assumes "pm_wf pm h" "map_of (personas pm) ''grandma'' = Some g"
  shows "select_all pm h ms =
           (map (\<lambda>i. Inr (length h + i)) [0..<length ms],
            h @ map (select_spec (hinglish_directive pm) (catalog pm h) (h ! g)) ms)"
  using assms(1)
proof (induction ms arbitrary: h)
  case Nil
  show ?case by simp
next
  case (Cons m ms)
  let ?x = "select_spec (hinglish_directive pm) (catalog pm h) (h ! g) m"
  have wf1: "pm_wf pm (h @ [?x])" using Cons.prems by (rule pm_wf_append)
  have cat1: "catalog pm (h @ [?x]) = catalog pm h"
    using Cons.prems by (intro catalog_append) (simp add: pm_wf_def)
  have g1: "(h @ [?x]) ! g = h ! g"
    using grandma_in_range[OF Cons.prems assms(2)] by (simp add: nth_append)
  have idx: "map (\<lambda>i. Inr (length h + i)) [0..<Suc (length ms)]
      = (Inr (length h) :: error + addr) # map (\<lambda>i. Inr (Suc (length h + i))) [0..<length ms]"
    by (simp add: upt_Suc_shift o_def del: upt_Suc)
  show ?case
    using Cons.IH[OF wf1]
    by (simp add: select_persona_spec[OF assms(2)] cat1 g1 idx del: upt_Suc)
qed

lemma select_spec_from_catalog:
  assumes "d \<in> set cat"
  shows "\<exists>p \<in> set cat. select_spec dir cat d m = p\<lparr>system_prompt := system_prompt p @ dir\<rparr>"
proof (cases "find (persona_matches m) cat")
  case None
  with assms show ?thesis by (auto simp: select_spec_def)
next
  case (Some p)
  then have "p \<in> set cat" by (auto simp: find_Some_iff)
  with Some show ?thesis by (auto simp: select_spec_def)
qed

text \<open>
  Claim C4. On a well-formed catalog the selection returns a new object whose value is
  the one of the specification: the first persona in declaration order with a trigger
  keyword that is a substring of the lower-cased message, or the default persona, with
  the shared directive appended. The value is a function of the message and the catalog
  alone.
\<close>

theorem select_persona_first_match:
  assumes "pm_wf pm h"
  shows "\<exists>g. map_of (personas pm) ''grandma'' = Some g \<and>
             select_persona pm h opening =
               (Inr (length h),
                h @ [select_spec (hinglish_directive pm) (catalog pm h) (h ! g) opening])"
proof -
  from assms obtain g where g: "map_of (personas pm) ''grandma'' = Some g"
    by (auto simp: pm_wf_def)
  with select_persona_spec[OF g] show ?thesis by blast
qed

text \<open>
  Claim C5. After any sequence of selections every persona of the catalog, and every
  object that existed before, is what it was, and each persona returned is a new object:
  a catalog persona with the directive appended to its original prompt once.
\<close>

theorem selection_keeps_catalog:
  assumes "pm_wf pm h" and "select_all pm h ms = (rs, h')"
  shows "catalog pm h' = catalog pm h \<and> take (length h) h' = h \<and>
         (\<forall>i<length ms. \<exists>a p. rs ! i = Inr a \<and> length h \<le> a \<and> a < length h' \<and> p \<in> set (catalog pm h)
              \<and> h' ! a = p\<lparr>system_prompt := system_prompt p @ hinglish_directive pm\<rparr>)"
proof -
  from assms(1) obtain g where g: "map_of (personas pm) ''grandma'' = Some g"
    by (auto simp: pm_wf_def)
  let ?sel = "select_spec (hinglish_directive pm) (catalog pm h) (h ! g)"
  from select_all_closed[OF assms(1) g, of ms] assms(2)
  have rs: "rs = map (\<lambda>i. Inr (length h + i)) [0..<length ms]" and h': "h' = h @ map ?sel ms"
    by simp_all
  have cat: "catalog pm h' = catalog pm h"
    unfolding h' using assms(1) by (intro catalog_append) (simp add: pm_wf_def)
  have dflt: "h ! g \<in> set (catalog pm h)"
    using map_of_SomeD[OF g] by (force simp: catalog_def)
  have each: "\<exists>a p. rs ! i = Inr a \<and> length h \<le> a \<and> a < length h' \<and> p \<in> set (catalog pm h)
              \<and> h' ! a = p\<lparr>system_prompt := system_prompt p @ hinglish_directive pm\<rparr>"
    if i: "i < length ms" for i
  proof -
    from select_spec_from_catalog[OF dflt, of "hinglish_directive pm" "ms ! i"]
    obtain p where p: "p \<in> set (catalog pm h)"
      and sp: "?sel (ms ! i) = p\<lparr>system_prompt := system_prompt p @ hinglish_directive pm\<rparr>"
      by blast
    have "rs ! i = Inr (length h + i)" using i by (simp add: rs del: upt_Suc)
    moreover have "h' ! (length h + i) = ?sel (ms ! i)" using i by (simp add: h')
    moreover have "length h + i < length h'" using i by (simp add: h')
    ultimately show ?thesis using p sp by auto
  qed
  from cat each show ?thesis by (simp add: h')
qed

lemma pm_wf_init: "pm_wf (fst PersonaManager_init) (snd PersonaManager_init)"
  by (simp add: PersonaManager_init_def pm_wf_def)

text \<open>
  A message with a keyword of the second persona (sir) and keywords of the third (cash,
  bro) selects the second, the one declared first.
\<close>

theorem select_persona_first_match_witness:
  "pm_wf (fst PersonaManager_init) (snd PersonaManager_init) \<and>
   fst (select_persona (fst PersonaManager_init) (snd PersonaManager_init) ''Sir, send cash bro'') = Inr 3 \<and>
   name (snd (select_persona (fst PersonaManager_init) (snd PersonaManager_init) ''Sir, send cash bro'') ! 3)
     = ''Uncle Sharma''"
proof -
  have m: "lower ''Sir, send cash bro'' = ''sir, send cash bro''"
    by code_simp
  have g: "\<not> persona_matches ''Sir, send cash bro'' grandma_persona"
    by (simp add: persona_matches_def m grandma_persona_def sublist_Cons_right)
  have u: "persona_matches ''Sir, send cash bro'' uncle_persona"
    by (simp add: persona_matches_def m uncle_persona_def sublist_Cons_right)
  have sel: "select_spec hinglish_directive_text [grandma_persona, uncle_persona, student_persona]
               grandma_persona ''Sir, send cash bro''
             = uncle_persona\<lparr>system_prompt := system_prompt uncle_persona @ hinglish_directive_text\<rparr>"
    by (simp add: select_spec_def g u)
  have n: "name uncle_persona = ''Uncle Sharma''" by (simp add: uncle_persona_def)
  from select_persona_first_match[OF pm_wf_init, of "''Sir, send cash bro''"]
  have "select_persona (fst PersonaManager_init) (snd PersonaManager_init) ''Sir, send cash bro''
        = (Inr 3, [grandma_persona, uncle_persona, student_persona,
                   uncle_persona\<lparr>system_prompt := system_prompt uncle_persona @ hinglish_directive_text\<rparr>])"
    by (auto simp: PersonaManager_init_def catalog_def sel)
  with pm_wf_init show ?thesis by (simp add: n)
qed

text \<open>
  Two selections on the catalog of the program leave its three personas as declared.
\<close>

theorem selection_keeps_catalog_witness:
  "pm_wf (fst PersonaManager_init) (snd PersonaManager_init) \<and>
   catalog (fst PersonaManager_init)
     (snd (select_all (fst PersonaManager_init) (snd PersonaManager_init) [''hello'', ''hello'']))
     = [grandma_persona, uncle_persona, student_persona] \<and>
   take 3 (snd (select_all (fst PersonaManager_init) (snd PersonaManager_init) [''hello'', ''hello'']))
     = [grandma_persona, uncle_persona, student_persona]"
proof -
  obtain rs h' where e:
    "select_all (fst PersonaManager_init) (snd PersonaManager_init) [''hello'', ''hello''] = (rs, h')"
    by force
  have c: "catalog (fst PersonaManager_init) (snd PersonaManager_init)
             = [grandma_persona, uncle_persona, student_persona]"
    and l: "length (snd PersonaManager_init) = 3"
    and h: "snd PersonaManager_init = [grandma_persona, uncle_persona, student_persona]"
    by (simp_all add: PersonaManager_init_def catalog_def)
  from selection_keeps_catalog[OF pm_wf_init e]
  have "catalog (fst PersonaManager_init) h' = catalog (fst PersonaManager_init) (snd PersonaManager_init)"
    and "take (length (snd PersonaManager_init)) h' = snd PersonaManager_init"
    by blast+
  then have "catalog (fst PersonaManager_init) h' = [grandma_persona, uncle_persona, student_persona]"
    and "take 3 h' = [grandma_persona, uncle_persona, student_persona]"
    by (simp_all only: c l) (simp only: h)
  with pm_wf_init show ?thesis by (simp only: e snd_conv simp_thms)
qed

section \<open>Properties of the payment handle scan\<close>


lemma match_domain_Some:
  assumes "match_domain r = Some d"
  shows "\<exists>ds. d = CHR ''@'' # ds \<and> 2 \<le> length ds \<and> length ds \<le> 64 \<and> (\<forall>c \<in> set ds. is_alpha c)
              \<and> prefix d r"
proof (cases r)
  case Nil
  with assms show ?thesis by (simp add: match_domain_def)
next
  case (Cons c cs)
  let ?ds = "take 64 (takeWhile is_alpha cs)"
  from assms Cons have c: "c = CHR ''@''" and d: "d = c # ?ds" and l: "2 \<le> length ?ds"
    by (auto simp: match_domain_def Let_def split: if_splits)
  have al: "\<forall>x \<in> set ?ds. is_alpha x"
    by (meson in_set_takeD set_takeWhileD)
  have "prefix ?ds cs"
    by (meson prefix_order.trans take_is_prefix takeWhile_is_prefix)
  with c d l al Cons show ?thesis by simp
qed

lemma match_local_Some:
  "match_local n s = Some h \<Longrightarrow>
   \<exists>k d. 2 \<le> k \<and> k \<le> n \<and> match_domain (drop k s) = Some d \<and> h = take k s @ d"
proof (induction n)
  case 0
  then show ?case by simp
next
  case (Suc n)
  show ?case
  proof (cases "Suc n < 2")
    case True
    with Suc.prems show ?thesis by simp
  next
    case False
    show ?thesis
    proof (cases "match_domain (drop (Suc n) s)")
      case None
      with Suc.prems False have "match_local n s = Some h" by simp
      from Suc.IH[OF this] obtain k d where "2 \<le> k" "k \<le> n"
        "match_domain (drop k s) = Some d" "h = take k s @ d" by blast
      then show ?thesis by (intro exI[of _ k] exI[of _ d]) simp
    next
      case (Some d)
      with Suc.prems False have "h = take (Suc n) s @ d" by simp
      with Some False show ?thesis by (intro exI[of _ "Suc n"] exI[of _ d]) simp
    qed
  qed
qed

lemma match_here_Some:
  assumes "match_here s = Some h"
  shows "is_handle h \<and> prefix h s"
proof -
  let ?run = "takeWhile is_local_char s"
  from match_local_Some[OF assms[unfolded match_here_def]]
  obtain k d where k2: "2 \<le> k" and kn: "k \<le> length (take 256 ?run)"
    and md: "match_domain (drop k s) = Some d" and h: "h = take k s @ d" by blast
  from match_domain_Some[OF md] obtain ds where d: "d = CHR ''@'' # ds"
    and ds: "2 \<le> length ds" "length ds \<le> 64" "\<forall>c \<in> set ds. is_alpha c"
    and pd: "prefix d (drop k s)" by blast
  have krun: "k \<le> length ?run" and k256: "k \<le> 256" using kn by simp_all
  have ks: "k \<le> length s" using krun length_takeWhile_le[of is_local_char s] by linarith
  have tk: "take k s = take k ?run"
    by (metis krun prefix_def takeWhile_is_prefix append_eq_conv_conj take_append min.absorb2
        take_take min.commute)
  have loc: "\<forall>c \<in> set (take k s). is_local_char c"
    unfolding tk by (meson in_set_takeD set_takeWhileD)
  have len: "length (take k s) = k" using ks by simp
  have "is_handle h"
    unfolding is_handle_def h d
    using k2 k256 loc len ds by (intro exI[of _ "take k s"] exI[of _ ds]) simp
  moreover have "prefix h s"
  proof -
    from pd obtain z where "drop k s = d @ z" by (auto simp: prefix_def)
    then have "s = take k s @ d @ z" by (metis append_take_drop_id)
    then show ?thesis unfolding h by (metis append.assoc prefixI)
  qed
  ultimately show ?thesis ..
qed

lemma re_search_Some:
  "re_search t = Some h \<Longrightarrow> is_handle h \<and> sublist h t"
proof (induction t)
  case Nil
  then show ?case using match_here_Some[of "[]" h] by (auto dest: prefix_imp_sublist)
next
  case (Cons c cs)
  show ?case
  proof (cases "match_here (c # cs)")
    case None
    with Cons have "is_handle h \<and> sublist h cs" by simp
    then show ?thesis by (auto intro: sublist_Cons_right[THEN iffD2])
  next
    case (Some m)
    with Cons.prems have "m = h" by simp
    with match_here_Some[OF Some] show ?thesis by (auto dest: prefix_imp_sublist)
  qed
qed





lemma extract_upi_nonempty: "extract_upi t \<noteq> Some []"
  using re_search_Some[of t "[]"] by (auto simp: extract_upi_def is_handle_def)

section \<open>Properties of the chat endpoint\<close>

subsection \<open>The steps of a call\<close>

lemma ensure_session_seen:
  "sessions w (session_id request) = Some s \<Longrightarrow> ensure_session w request = Inr w"
  by (simp add: ensure_session_def)

lemma ensure_session_unseen:
  assumes "pm_wf (persona_mgr w) (persona_objs w)" "sessions w (session_id request) = None"
  shows "\<exists>x. ensure_session w request =
           Inr (w\<lparr>persona_objs := persona_objs w @ [x],
                  sessions := (sessions w)(session_id request \<mapsto>
                    \<lparr>history = [\<lparr>role = System, content = PStr (system_prompt x)\<rparr>],
                     persona = length (persona_objs w),
                     ip_log = [],
                     traps_triggered = [],
                     extracted_upi = None,
                     last_classification = None\<rparr>)\<rparr>)"
proof -
  from assms(1) obtain g where g: "map_of (personas (persona_mgr w)) ''grandma'' = Some g"
    by (auto simp: pm_wf_def)
  from select_persona_spec[OF g, of "persona_objs w" "message request"]
  obtain x where "select_persona (persona_mgr w) (persona_objs w) (message request)
      = (Inr (length (persona_objs w)), persona_objs w @ [x])" by blast
  then show ?thesis using assms(2) by (intro exI[of _ x]) (simp add: ensure_session_def)
qed

lemma ensure_session_ok:
  assumes "world_inv w"
  shows "\<exists>w0 s0. ensure_session w request = Inr w0
           \<and> sessions w0 (session_id request) = Some s0
           \<and> world_inv w0 \<and> key_mgr w0 = key_mgr w
           \<and> (\<forall>x. x \<noteq> session_id request \<longrightarrow> sessions w0 x = sessions w x)
           \<and> (\<forall>s. sessions w (session_id request) = Some s \<longrightarrow> s0 = s)
           \<and> (sessions w (session_id request) = None \<longrightarrow>
                 traps_triggered s0 = [] \<and> extracted_upi s0 = None
                 \<and> (\<exists>p. history s0 = [\<lparr>role = System, content = PStr p\<rparr>]))"
proof (cases "sessions w (session_id request)")
  case None
  from assms have wf: "pm_wf (persona_mgr w) (persona_objs w)" by (simp add: world_inv_def)
  from ensure_session_unseen[OF wf None] obtain x where
    e: "ensure_session w request =
           Inr (w\<lparr>persona_objs := persona_objs w @ [x],
                  sessions := (sessions w)(session_id request \<mapsto>
                    \<lparr>history = [\<lparr>role = System, content = PStr (system_prompt x)\<rparr>],
                     persona = length (persona_objs w),
                     ip_log = [],
                     traps_triggered = [],
                     extracted_upi = None,
                     last_classification = None\<rparr>)\<rparr>)" by blast
  have "pm_wf (persona_mgr w) (persona_objs w @ [x])" using wf by (rule pm_wf_append)
  with assms None show ?thesis
    unfolding e by (simp add: world_inv_def)
next
  case (Some s)
  with assms ensure_session_seen[OF Some] show ?thesis by simp
qed

lemma process_message_fields:
  "traps_triggered (fst (process_message s safe env))
     = traps_triggered s @ (if is_bait safe then [trap_record (env_proof_file env)] else [])"
  "extracted_upi (fst (process_message s safe env))
     = (case extract_upi safe of Some h \<Rightarrow> Some h | None \<Rightarrow> extracted_upi s)"
  "history (fst (process_message s safe env))
     = history s @ \<lparr>role = User, content = PStr safe\<rparr>
         # (if is_bait safe then [directive_turn (''/proof/'' @ env_proof_file env)] else [])"
  "fst (snd (process_message s safe env))
     = (if is_bait safe then Some (''/proof/'' @ env_proof_file env) else None)"
  "snd (snd (process_message s safe env))
     = (if is_bait safe
        then [Render_Proof ''5000''
                (or_else (extracted_upi (fst (process_message s safe env))) ''scammer@bank'')]
        else [])"
  using extract_upi_nonempty[of safe]
  by (cases "extract_upi safe"; cases "env_classification env";
      simp add: process_message_def Let_def)+

lemma chat_endpoint_closed:
  assumes "world_inv w"
  shows "\<exists>w0 s0 v km' tr2.
           ensure_session w request = Inr w0
         \<and> sessions w0 (session_id request) = Some s0
         \<and> world_inv w0 \<and> key_mgr w0 = key_mgr w
         \<and> (\<forall>x. x \<noteq> session_id request \<longrightarrow> sessions w0 x = sessions w x)
         \<and> (\<forall>s. sessions w (session_id request) = Some s \<longrightarrow> s0 = s)
         \<and> (sessions w (session_id request) = None \<longrightarrow>
                 traps_triggered s0 = [] \<and> extracted_upi s0 = None
                 \<and> (\<exists>p. history s0 = [\<lparr>role = System, content = PStr p\<rparr>]))
         \<and> chat_completion (key_mgr w)
              (history (fst (process_message s0 (redact_pii (env_analysis env) (message request)) env)))
              (env_groq env) (env_secondary env) = (Inr v, km', tr2)
         \<and> km_inv km'
         \<and> chat_endpoint w request env =
             (case finish_reply
                     (fst (snd (process_message s0 (redact_pii (env_analysis env) (message request)) env))) v of
                Inl e \<Rightarrow>
                  (Inl e,
                   w0\<lparr>sessions := (sessions w0)(session_id request \<mapsto>
                          fst (process_message s0 (redact_pii (env_analysis env) (message request)) env)),
                      key_mgr := km'\<rparr>,
                   snd (snd (process_message s0 (redact_pii (env_analysis env) (message request)) env)) @ tr2)
              | Inr final \<Rightarrow>
                  (Inr final,
                   w0\<lparr>sessions := (sessions w0)(session_id request \<mapsto>
                          (fst (process_message s0 (redact_pii (env_analysis env) (message request)) env))
                            \<lparr>history :=
                               history (fst (process_message s0 (redact_pii (env_analysis env) (message request)) env))
                                 @ [\<lparr>role = Assistant, content = final\<rparr>]\<rparr>),
                      key_mgr := km'\<rparr>,
                   snd (snd (process_message s0 (redact_pii (env_analysis env) (message request)) env)) @ tr2))"
proof -
  let ?safe = "redact_pii (env_analysis env) (message request)"
  from ensure_session_ok[OF assms, of request] obtain w0 s0 where
    all: "ensure_session w request = Inr w0
           \<and> sessions w0 (session_id request) = Some s0
           \<and> world_inv w0 \<and> key_mgr w0 = key_mgr w
           \<and> (\<forall>x. x \<noteq> session_id request \<longrightarrow> sessions w0 x = sessions w x)
           \<and> (\<forall>s. sessions w (session_id request) = Some s \<longrightarrow> s0 = s)
           \<and> (sessions w (session_id request) = None \<longrightarrow>
                 traps_triggered s0 = [] \<and> extracted_upi s0 = None
                 \<and> (\<exists>p. history s0 = [\<lparr>role = System, content = PStr p\<rparr>]))"
    by (elim exE)
  note e = all[THEN conjunct1]
  note s0 = all[THEN conjunct2, THEN conjunct1]
  note inv0 = all[THEN conjunct2, THEN conjunct2, THEN conjunct1]
  note km0 = all[THEN conjunct2, THEN conjunct2, THEN conjunct2, THEN conjunct1]
  note rest1 = all[THEN conjunct2, THEN conjunct2, THEN conjunct2, THEN conjunct2, THEN conjunct1]
  note rest2 = all[THEN conjunct2, THEN conjunct2, THEN conjunct2, THEN conjunct2, THEN conjunct2, THEN conjunct1]
  note rest3 = all[THEN conjunct2, THEN conjunct2, THEN conjunct2, THEN conjunct2, THEN conjunct2, THEN conjunct2]
  let ?pm = "process_message s0 ?safe env"
  have kinv: "km_inv (key_mgr w)" using assms by (simp add: world_inv_def)
  obtain r km' tr2 where cc:
    "chat_completion (key_mgr w) (history (fst ?pm)) (env_groq env) (env_secondary env) = (r, km', tr2)"
    by (cases "chat_completion (key_mgr w) (history (fst ?pm)) (env_groq env) (env_secondary env)")
  from chat_completion_never_raises[OF kinv, of "history (fst ?pm)" "env_groq env" "env_secondary env"] cc
  obtain v where r: "r = Inr v" by auto
  from chat_completion_km_inv[OF kinv, of "history (fst ?pm)" "env_groq env" "env_secondary env"] cc
  have kinv': "km_inv km'" by simp
  have ce: "chat_endpoint w request env =
             (case finish_reply (fst (snd ?pm)) v of
                Inl e \<Rightarrow>
                  (Inl e, w0\<lparr>sessions := (sessions w0)(session_id request \<mapsto> fst ?pm), key_mgr := km'\<rparr>,
                   snd (snd ?pm) @ tr2)
              | Inr final \<Rightarrow>
                  (Inr final,
                   w0\<lparr>sessions := (sessions w0)(session_id request \<mapsto>
                          (fst ?pm)\<lparr>history := history (fst ?pm) @ [\<lparr>role = Assistant, content = final\<rparr>]\<rparr>),
                      key_mgr := km'\<rparr>,
                   snd (snd ?pm) @ tr2))"
    using cc
    by (simp add: chat_endpoint_def e s0 km0 r case_prod_beta split: sum.splits)
  note cc' = cc[unfolded r]
  show ?thesis
    by (intro exI[of _ w0] exI[of _ s0] exI[of _ v] exI[of _ km'] exI[of _ tr2] conjI)
       (fact e s0 inv0 km0 rest1 rest2 rest3 cc' kinv' ce)+
qed


lemma chat_endpoint_step:
  assumes "world_inv w"
  obtains s0 v km' tr2 where
    "\<forall>s. sessions w (session_id request) = Some s \<longrightarrow> s0 = s"
    "sessions w (session_id request) = None \<longrightarrow>
       traps_triggered s0 = [] \<and> extracted_upi s0 = None
       \<and> (\<exists>p. history s0 = [\<lparr>role = System, content = PStr p\<rparr>])"
    "chat_completion (key_mgr w)
       (history (fst (process_message s0 (redact_pii (env_analysis env) (message request)) env)))
       (env_groq env) (env_secondary env) = (Inr v, km', tr2)"
    "fst (chat_endpoint w request env) =
       finish_reply (fst (snd (process_message s0 (redact_pii (env_analysis env) (message request)) env))) v"
    "snd (snd (chat_endpoint w request env)) =
       snd (snd (process_message s0 (redact_pii (env_analysis env) (message request)) env)) @ tr2"
    "world_inv (fst (snd (chat_endpoint w request env)))"
    "key_mgr (fst (snd (chat_endpoint w request env))) = km'"
    "\<forall>x. x \<noteq> session_id request \<longrightarrow>
       sessions (fst (snd (chat_endpoint w request env))) x = sessions w x"
    "sessions (fst (snd (chat_endpoint w request env))) (session_id request) =
       Some ((fst (process_message s0 (redact_pii (env_analysis env) (message request)) env))
               \<lparr>history :=
                  history (fst (process_message s0 (redact_pii (env_analysis env) (message request)) env))
                  @ (case fst (chat_endpoint w request env) of
                       Inl e \<Rightarrow> [] | Inr final \<Rightarrow> [\<lparr>role = Assistant, content = final\<rparr>])\<rparr>)"
proof -
  let ?safe = "redact_pii (env_analysis env) (message request)"
  from chat_endpoint_closed[OF assms, of request env] obtain w0 s0 v km' tr2 where
    all: "ensure_session w request = Inr w0
         \<and> sessions w0 (session_id request) = Some s0
         \<and> world_inv w0 \<and> key_mgr w0 = key_mgr w
         \<and> (\<forall>x. x \<noteq> session_id request \<longrightarrow> sessions w0 x = sessions w x)
         \<and> (\<forall>s. sessions w (session_id request) = Some s \<longrightarrow> s0 = s)
         \<and> (sessions w (session_id request) = None \<longrightarrow>
                 traps_triggered s0 = [] \<and> extracted_upi s0 = None
                 \<and> (\<exists>p. history s0 = [\<lparr>role = System, content = PStr p\<rparr>]))
         \<and> chat_completion (key_mgr w)
              (history (fst (process_message s0 ?safe env)))
              (env_groq env) (env_secondary env) = (Inr v, km', tr2)
         \<and> km_inv km'
         \<and> chat_endpoint w request env =
             (case finish_reply (fst (snd (process_message s0 ?safe env))) v of
                Inl e \<Rightarrow>
                  (Inl e,
                   w0\<lparr>sessions := (sessions w0)(session_id request \<mapsto> fst (process_message s0 ?safe env)),
                      key_mgr := km'\<rparr>,
                   snd (snd (process_message s0 ?safe env)) @ tr2)
              | Inr final \<Rightarrow>
                  (Inr final,
                   w0\<lparr>sessions := (sessions w0)(session_id request \<mapsto>
                          (fst (process_message s0 ?safe env))
                            \<lparr>history := history (fst (process_message s0 ?safe env))
                                 @ [\<lparr>role = Assistant, content = final\<rparr>]\<rparr>),
                      key_mgr := km'\<rparr>,
                   snd (snd (process_message s0 ?safe env)) @ tr2))"
    by (elim exE)
  note inv0 = all[THEN conjunct2, THEN conjunct2, THEN conjunct1]
  note rest1 = all[THEN conjunct2, THEN conjunct2, THEN conjunct2, THEN conjunct2, THEN conjunct1]
  note rest2 = all[THEN conjunct2, THEN conjunct2, THEN conjunct2, THEN conjunct2, THEN conjunct2,
                   THEN conjunct1]
  note rest3 = all[THEN conjunct2, THEN conjunct2, THEN conjunct2, THEN conjunct2, THEN conjunct2,
                   THEN conjunct2, THEN conjunct1]
  note cc = all[THEN conjunct2, THEN conjunct2, THEN conjunct2, THEN conjunct2, THEN conjunct2,
                   THEN conjunct2, THEN conjunct2, THEN conjunct1]
  note kinv = all[THEN conjunct2, THEN conjunct2, THEN conjunct2, THEN conjunct2, THEN conjunct2,
                   THEN conjunct2, THEN conjunct2, THEN conjunct2, THEN conjunct1]
  note ce = all[THEN conjunct2, THEN conjunct2, THEN conjunct2, THEN conjunct2, THEN conjunct2,
                   THEN conjunct2, THEN conjunct2, THEN conjunct2, THEN conjunct2]
  have pm0: "pm_wf (persona_mgr w0) (persona_objs w0)" using inv0 by (simp add: world_inv_def)
  have r: "fst (chat_endpoint w request env) = finish_reply (fst (snd (process_message s0 ?safe env))) v"
    unfolding ce by (cases "finish_reply (fst (snd (process_message s0 ?safe env))) v") simp_all
  have t: "snd (snd (chat_endpoint w request env)) = snd (snd (process_message s0 ?safe env)) @ tr2"
    unfolding ce by (cases "finish_reply (fst (snd (process_message s0 ?safe env))) v") simp_all
  have i: "world_inv (fst (snd (chat_endpoint w request env)))"
    unfolding ce using kinv pm0
    by (cases "finish_reply (fst (snd (process_message s0 ?safe env))) v") (simp_all add: world_inv_def)
  have k: "key_mgr (fst (snd (chat_endpoint w request env))) = km'"
    unfolding ce by (cases "finish_reply (fst (snd (process_message s0 ?safe env))) v") simp_all
  have o: "\<forall>x. x \<noteq> session_id request \<longrightarrow>
       sessions (fst (snd (chat_endpoint w request env))) x = sessions w x"
    unfolding ce using rest1
    by (cases "finish_reply (fst (snd (process_message s0 ?safe env))) v") simp_all
  have s: "sessions (fst (snd (chat_endpoint w request env))) (session_id request) =
       Some ((fst (process_message s0 ?safe env))
               \<lparr>history := history (fst (process_message s0 ?safe env))
                  @ (case fst (chat_endpoint w request env) of
                       Inl e \<Rightarrow> [] | Inr final \<Rightarrow> [\<lparr>role = Assistant, content = final\<rparr>])\<rparr>)"
    unfolding ce by (cases "finish_reply (fst (snd (process_message s0 ?safe env))) v") simp_all
  from rest2 rest3 cc r t i k o s show thesis by (rule that)
qed


subsection \<open>What a call does to its session\<close>


lemma chat_traps:
  assumes "world_inv w"
  shows "traps_of (fst (snd (chat_endpoint w request env))) (session_id request) =
           traps_of w (session_id request)
           @ (if is_bait (redact_pii (env_analysis env) (message request))
              then [\<lparr>trap_type = ''fake_proof'', trap_file = env_proof_file env, timestamp = ''now''\<rparr>] else [])"
proof -
  from assms obtain s0 v km' tr2 where
    old: "\<forall>s. sessions w (session_id request) = Some s \<longrightarrow> s0 = s"
    and new: "sessions w (session_id request) = None \<longrightarrow>
       traps_triggered s0 = [] \<and> extracted_upi s0 = None
       \<and> (\<exists>p. history s0 = [\<lparr>role = System, content = PStr p\<rparr>])"
    and s: "sessions (fst (snd (chat_endpoint w request env))) (session_id request) =
       Some ((fst (process_message s0 (redact_pii (env_analysis env) (message request)) env))
               \<lparr>history :=
                  history (fst (process_message s0 (redact_pii (env_analysis env) (message request)) env))
                  @ (case fst (chat_endpoint w request env) of
                       Inl e \<Rightarrow> [] | Inr final \<Rightarrow> [\<lparr>role = Assistant, content = final\<rparr>])\<rparr>)"
    by (rule chat_endpoint_step[of w request env])
  have t0: "traps_triggered s0 = traps_of w (session_id request)"
    using old new by (cases "sessions w (session_id request)") (simp_all add: traps_of_def)
  show ?thesis
    by (simp add: traps_of_def s process_message_fields(1) t0 trap_record_def)
qed

lemma chat_history:
  assumes "world_inv w"
  shows "\<exists>base. (\<forall>s. sessions w (session_id request) = Some s \<longrightarrow> base = history s)
           \<and> (sessions w (session_id request) = None \<longrightarrow>
                (\<exists>p. base = [\<lparr>role = System, content = PStr p\<rparr>]))
           \<and> history_of (fst (snd (chat_endpoint w request env))) (session_id request) =
               base @ \<lparr>role = User, content = PStr (redact_pii (env_analysis env) (message request))\<rparr>
                 # (if is_bait (redact_pii (env_analysis env) (message request))
                    then [directive_turn (''/proof/'' @ env_proof_file env)] else [])
                 @ (case fst (chat_endpoint w request env) of
                      Inl e \<Rightarrow> [] | Inr final \<Rightarrow> [\<lparr>role = Assistant, content = final\<rparr>])"
proof -
  from assms obtain s0 v km' tr2 where
    old: "\<forall>s. sessions w (session_id request) = Some s \<longrightarrow> s0 = s"
    and new: "sessions w (session_id request) = None \<longrightarrow>
       traps_triggered s0 = [] \<and> extracted_upi s0 = None
       \<and> (\<exists>p. history s0 = [\<lparr>role = System, content = PStr p\<rparr>])"
    and s: "sessions (fst (snd (chat_endpoint w request env))) (session_id request) =
       Some ((fst (process_message s0 (redact_pii (env_analysis env) (message request)) env))
               \<lparr>history :=
                  history (fst (process_message s0 (redact_pii (env_analysis env) (message request)) env))
                  @ (case fst (chat_endpoint w request env) of
                       Inl e \<Rightarrow> [] | Inr final \<Rightarrow> [\<lparr>role = Assistant, content = final\<rparr>])\<rparr>)"
    by (rule chat_endpoint_step[of w request env])
  have a: "\<forall>s. sessions w (session_id request) = Some s \<longrightarrow> history s0 = history s"
    using old by simp
  have b: "sessions w (session_id request) = None \<longrightarrow>
                (\<exists>p. history s0 = [\<lparr>role = System, content = PStr p\<rparr>])"
    using new by simp
  have c: "history_of (fst (snd (chat_endpoint w request env))) (session_id request) =
               history s0 @ \<lparr>role = User, content = PStr (redact_pii (env_analysis env) (message request))\<rparr>
                 # (if is_bait (redact_pii (env_analysis env) (message request))
                    then [directive_turn (''/proof/'' @ env_proof_file env)] else [])
                 @ (case fst (chat_endpoint w request env) of
                      Inl e \<Rightarrow> [] | Inr final \<Rightarrow> [\<lparr>role = Assistant, content = final\<rparr>])"
    by (simp add: history_of_def s process_message_fields(3))
  show ?thesis
    by (intro exI[of _ "history s0"] conjI) (fact a b c)+
qed

lemma chat_world_inv:
  assumes "world_inv w"
  shows "world_inv (fst (snd (chat_endpoint w request env)))"
  using assms by (rule chat_endpoint_step[of w request env])

lemma chat_other_sessions:
  assumes "world_inv w" "x \<noteq> session_id request"
  shows "sessions (fst (snd (chat_endpoint w request env))) x = sessions w x"
proof -
  from assms(1) obtain s0 v km' tr2 where
    "\<forall>x. x \<noteq> session_id request \<longrightarrow>
       sessions (fst (snd (chat_endpoint w request env))) x = sessions w x"
    by (rule chat_endpoint_step[of w request env])
  with assms(2) show ?thesis by simp
qed

lemma chat_many_world_inv: "world_inv w \<Longrightarrow> world_inv (chat_many w calls)"
proof (induction calls arbitrary: w)
  case Nil
  then show ?case by simp
next
  case (Cons c calls)
  obtain request env where c: "c = (request, env)" by (cases c)
  from Cons.IH[OF chat_world_inv[OF Cons.prems, of request env]] show ?case by (simp add: c)
qed

lemma chat_many_traps:
  "world_inv w \<Longrightarrow>
   traps_of (chat_many w calls) sid =
     traps_of w sid @ map (\<lambda>f. \<lparr>trap_type = ''fake_proof'', trap_file = f, timestamp = ''now''\<rparr>) (trigger_files sid calls)"
proof (induction calls arbitrary: w)
  case Nil
  then show ?case by simp
next
  case (Cons c calls)
  obtain request env where c: "c = (request, env)" by (cases c)
  let ?w' = "fst (snd (chat_endpoint w request env))"
  have inv': "world_inv ?w'" using Cons.prems by (rule chat_world_inv)
  have step: "traps_of ?w' sid = traps_of w sid
      @ (if session_id request = sid \<and> is_bait (redact_pii (env_analysis env) (message request))
         then [\<lparr>trap_type = ''fake_proof'', trap_file = env_proof_file env, timestamp = ''now''\<rparr>] else [])"
  proof (cases "session_id request = sid")
    case True
    with chat_traps[OF Cons.prems, of request env] show ?thesis by simp
  next
    case False
    then have "sid \<noteq> session_id request" by simp
    from chat_other_sessions[OF Cons.prems this, of env] False show ?thesis
      by (simp add: traps_of_def)
  qed
  from Cons.IH[OF inv'] show ?case by (simp add: c step)
qed

lemma is_render_simps:
  "is_render (Groq_Post k m) = False"
  "is_render (Log_Rate_Limit i) = False"
  "is_render (Log_Rotated i) = False"
  "is_render (Log_Groq_Error i) = False"
  "is_render Log_Failover = False"
  "is_render (OpenRouter_Post k m) = False"
  "is_render Log_OpenRouter_Failed = False"
  "is_render (Render_Proof amount upi) = True"
  by (simp_all add: is_render_def)

lemma trigger_files_length:
  "length (trigger_files sid calls) =
     length (filter (\<lambda>(rq, ev). session_id rq = sid
                       \<and> is_bait (redact_pii (env_analysis ev) (message rq))) calls)"
  by (induction sid calls rule: trigger_files.induct) simp_all

lemma trap_records_distinct:
  "distinct fs \<Longrightarrow> distinct (map (\<lambda>f. \<lparr>trap_type = ''fake_proof'', trap_file = f, timestamp = ''now''\<rparr>) fs)"
  by (simp add: distinct_map inj_on_def)

lemma directive_turn_mentions:
  "role (directive_turn url) = System \<and>
   (\<exists>t. content (directive_turn url) = PStr t \<and> str_contains url t)"
proof -
  let ?pre = "''[SYSTEM INSTRUCTION]: You have just successfully generated a fake GPay payment screenshot. The file link is '' @ [CHR 0x27]"
  let ?post = "[CHR 0x27] @ ''. You MUST send this link to the user now. Say 'Here is the screenshot' or similar.''"
  have c: "content (directive_turn url) = PStr (?pre @ url @ ?post)"
    by (simp add: directive_turn_def)
  have "sublist url (?pre @ url @ ?post)" by (rule sublist_appendI)
  then have "str_contains url (?pre @ url @ ?post)" by (simp only: str_contains_sublist)
  with c show ?thesis by (simp add: directive_turn_def)
qed

lemma groq_loop_no_render:
  "filter is_render (snd (snd (groq_loop n a g msgs km tr))) = filter is_render tr"
proof (induction n arbitrary: a km tr)
  case 0
  show ?case by simp
next
  case (Suc n)
  show ?case
  proof (cases "get_current_groq_key km")
    case (Inl e)
    then show ?thesis by simp
  next
    case (Inr ko)
    show ?thesis
    proof (cases ko)
      case None
      with Inr show ?thesis by simp
    next
      case (Some key)
      have rot: "filter is_render (snd (rotate_groq_key km)) = []"
        by (simp add: rotate_groq_key_def Let_def is_render_simps)
      show ?thesis
      proof (cases "groq_try (g a)")
        case (Return v)
        with Inr Some show ?thesis by (simp add: is_render_simps)
      next
        case Rate_Limited
        with Inr Some show ?thesis
          by (simp add: case_prod_beta Suc.IH rot is_render_simps)
      next
        case (Raised e)
        with Inr Some show ?thesis
          by (simp add: case_prod_beta Suc.IH rot is_render_simps)
      qed
    qed
  qed
qed

lemma chat_completion_no_render:
  "filter is_render (snd (snd (chat_completion km msgs g sec))) = []"
proof -
  have f: "filter is_render (snd (openrouter_failover km' msgs sec)) = []" for km'
    by (simp add: openrouter_failover_def is_render_simps split: option.splits sum.splits)
  obtain r km' tr where l: "groq_loop (length (groq_keys km)) 0 g msgs km [] = (r, km', tr)"
    by (cases "groq_loop (length (groq_keys km)) 0 g msgs km []")
  from groq_loop_no_render[of "length (groq_keys km)" 0 g msgs km "[]"] l
  have "filter is_render tr = []" by simp
  then show ?thesis
    by (simp add: chat_completion_def l case_prod_beta f split: sum.splits option.splits)
qed

lemma chat_renders:
  assumes "world_inv w"
  shows "filter is_render (snd (snd (chat_endpoint w request env))) =
           (if is_bait (redact_pii (env_analysis env) (message request))
            then [Render_Proof ''5000''
                    (or_else (upi_of (fst (snd (chat_endpoint w request env))) (session_id request))
                       ''scammer@bank'')]
            else [])"
proof -
  from assms obtain s0 v km' tr2 where
    cc: "chat_completion (key_mgr w)
       (history (fst (process_message s0 (redact_pii (env_analysis env) (message request)) env)))
       (env_groq env) (env_secondary env) = (Inr v, km', tr2)"
    and t: "snd (snd (chat_endpoint w request env)) =
       snd (snd (process_message s0 (redact_pii (env_analysis env) (message request)) env)) @ tr2"
    and s: "sessions (fst (snd (chat_endpoint w request env))) (session_id request) =
       Some ((fst (process_message s0 (redact_pii (env_analysis env) (message request)) env))
               \<lparr>history :=
                  history (fst (process_message s0 (redact_pii (env_analysis env) (message request)) env))
                  @ (case fst (chat_endpoint w request env) of
                       Inl e \<Rightarrow> [] | Inr final \<Rightarrow> [\<lparr>role = Assistant, content = final\<rparr>])\<rparr>)"
    by (rule chat_endpoint_step[of w request env])
  from chat_completion_no_render[of "key_mgr w"
      "history (fst (process_message s0 (redact_pii (env_analysis env) (message request)) env))"
      "env_groq env" "env_secondary env"] cc
  have n: "filter is_render tr2 = []" by simp
  have u: "upi_of (fst (snd (chat_endpoint w request env))) (session_id request)
        = extracted_upi (fst (process_message s0 (redact_pii (env_analysis env) (message request)) env))"
    by (simp add: upi_of_def s)
  show ?thesis
    unfolding t u by (simp add: n process_message_fields(5) is_render_simps)
qed

lemma world_inv_initial: "world_inv (initial_world k1 k2 k3 orkey)"
  by (simp add: world_inv_def initial_world_def km_inv_init pm_wf_init)


subsection \<open>The claims about the endpoints\<close>

lemma attachment_mentions: "str_contains url (g @ attachment url)"
proof -
  have "g @ attachment url = (g @ ''\<newline>\<newline>[Attachment]: '') @ url @ []"
    by (simp add: attachment_def)
  then have "sublist url (g @ attachment url)" by (simp only: sublist_appendI)
  then show ?thesis by (simp add: str_contains_sublist)
qed



text \<open>
  Claim C7, amended. A chat call whose redacted message, lower-cased, holds a bait keyword
  asks for one artifact (amount 5000, for the session's handle or else the placeholder)
  and appends one trap record naming the file the generator returned and, after the
  user's turn, one system turn whose text holds the artifact's link; a call without a
  bait keyword in the redacted text asks for none and appends neither. Over any list of
  calls a session gains one such record for each of its triggering messages, with no
  deduplication, and the records differ when the generator's file names do.
\<close>

theorem trap_triggering_repeatable:
  assumes "world_inv w"
  shows "traps_of (fst (snd (chat_endpoint w request env))) (session_id request) =
           traps_of w (session_id request)
           @ (if is_bait (redact_pii (env_analysis env) (message request))
              then [\<lparr>trap_type = ''fake_proof'', trap_file = env_proof_file env, timestamp = ''now''\<rparr>]
              else [])
       \<and> filter is_render (snd (snd (chat_endpoint w request env))) =
           (if is_bait (redact_pii (env_analysis env) (message request))
            then [Render_Proof ''5000''
                    (or_else (upi_of (fst (snd (chat_endpoint w request env))) (session_id request))
                       ''scammer@bank'')]
            else [])
       \<and> (\<exists>base. (\<forall>s. sessions w (session_id request) = Some s \<longrightarrow> base = history s)
           \<and> (sessions w (session_id request) = None \<longrightarrow>
                (\<exists>p. base = [\<lparr>role = System, content = PStr p\<rparr>]))
           \<and> history_of (fst (snd (chat_endpoint w request env))) (session_id request) =
               base @ \<lparr>role = User, content = PStr (redact_pii (env_analysis env) (message request))\<rparr>
                 # (if is_bait (redact_pii (env_analysis env) (message request))
                    then [directive_turn (''/proof/'' @ env_proof_file env)] else [])
                 @ (case fst (chat_endpoint w request env) of
                      Inl e \<Rightarrow> [] | Inr final \<Rightarrow> [\<lparr>role = Assistant, content = final\<rparr>]))
       \<and> role (directive_turn (''/proof/'' @ env_proof_file env)) = System
       \<and> (\<exists>t. content (directive_turn (''/proof/'' @ env_proof_file env)) = PStr t
              \<and> str_contains (''/proof/'' @ env_proof_file env) t)
       \<and> traps_of (chat_many w calls) sid =
           traps_of w sid
           @ map (\<lambda>f. \<lparr>trap_type = ''fake_proof'', trap_file = f, timestamp = ''now''\<rparr>)
               (trigger_files sid calls)
       \<and> length (trigger_files sid calls) =
           length (filter (\<lambda>(rq, ev). session_id rq = sid
                             \<and> is_bait (redact_pii (env_analysis ev) (message rq))) calls)
       \<and> (distinct (trigger_files sid calls) \<longrightarrow>
            distinct (map (\<lambda>f. \<lparr>trap_type = ''fake_proof'', trap_file = f, timestamp = ''now''\<rparr>)
                        (trigger_files sid calls)))
       \<and> or_else None ''scammer@bank'' = ''scammer@bank''
       \<and> (\<forall>u. u \<noteq> [] \<longrightarrow> or_else (Some u) ''scammer@bank'' = u)
       \<and> (is_bait t \<longleftrightarrow>
            (\<exists>k \<in> set [''screenshot'', ''proof'', ''photo'', ''payment done''].
               sublist k (lower t)))"
proof -
  note a = chat_traps[OF assms, of request env]
  note b = chat_renders[OF assms, of request env]
  note c = chat_history[OF assms, of request env]
  note c1 = directive_turn_mentions[of "''/proof/'' @ env_proof_file env", THEN conjunct1]
  note c2 = directive_turn_mentions[of "''/proof/'' @ env_proof_file env", THEN conjunct2]
  note d = chat_many_traps[OF assms, of calls sid]
  note d' = trigger_files_length[of sid calls]
  have d'': "distinct (trigger_files sid calls) \<longrightarrow>
            distinct (map (\<lambda>f. \<lparr>trap_type = ''fake_proof'', trap_file = f, timestamp = ''now''\<rparr>)
                        (trigger_files sid calls))"
    using trap_records_distinct[of "trigger_files sid calls"] by (rule impI)
  have e: "or_else None ''scammer@bank'' = ''scammer@bank''" by (simp add: or_else_def)
  have f: "\<forall>u. u \<noteq> [] \<longrightarrow> or_else (Some u) ''scammer@bank'' = u" by (simp add: or_else_def)
  have g: "is_bait t \<longleftrightarrow>
            (\<exists>k \<in> set [''screenshot'', ''proof'', ''photo'', ''payment done''].
               sublist k (lower t))"
    by (simp only: is_bait_def bait_keywords_def list_ex_iff str_contains_sublist)
  show ?thesis
    apply (rule conjI, rule a)
    apply (rule conjI, rule b)
    apply (rule conjI, rule c)
    apply (rule conjI, rule c1)
    apply (rule conjI, rule c2)
    apply (rule conjI, rule d)
    apply (rule conjI, rule d')
    apply (rule conjI, rule d'')
    apply (rule conjI, rule e)
    apply (rule conjI, rule f)
    apply (rule g)
    done
qed

text \<open>
  Three messages in one session, the first and the third with the keyword: two records,
  each with its own file, and they differ.
\<close>

theorem trap_triggering_repeatable_witness:
  "world_inv world_two \<and>
   traps_of (chat_many world_two
               [(request_of ''s1'' ''send me a screenshot'', env_of ''proof_a.png'' always_429),
                (request_of ''s1'' ''hello beta'', env_of ''proof_b.png'' always_429),
                (request_of ''s1'' ''SCREENSHOT now'', env_of ''proof_c.png'' always_429)])
            ''s1''
     = [\<lparr>trap_type = ''fake_proof'', trap_file = ''proof_a.png'', timestamp = ''now''\<rparr>,
        \<lparr>trap_type = ''fake_proof'', trap_file = ''proof_c.png'', timestamp = ''now''\<rparr>] \<and>
   distinct [\<lparr>trap_type = ''fake_proof'', trap_file = ''proof_a.png'', timestamp = ''now''\<rparr>,
             \<lparr>trap_type = ''fake_proof'', trap_file = ''proof_c.png'', timestamp = ''now''\<rparr>]"
proof -
  let ?calls = "[(request_of ''s1'' ''send me a screenshot'', env_of ''proof_a.png'' always_429),
                 (request_of ''s1'' ''hello beta'', env_of ''proof_b.png'' always_429),
                 (request_of ''s1'' ''SCREENSHOT now'', env_of ''proof_c.png'' always_429)]"
  have inv: "world_inv world_two" by (simp add: world_two_def world_inv_initial)
  have b1: "is_bait ''send me a screenshot''" by code_simp
  have b2: "\<not> is_bait ''hello beta''" by code_simp
  have b3: "is_bait ''SCREENSHOT now''" by code_simp
  have t0: "traps_of world_two ''s1'' = []"
    by (simp add: traps_of_def world_two_def initial_world_def)
  have tf: "trigger_files ''s1'' ?calls = [''proof_a.png'', ''proof_c.png'']"
    by (simp add: request_of_def env_of_def redact_pii_def b1 b2 b3)
  note inst = trap_triggering_repeatable[OF inv, of _ _ ?calls "''s1''"]
  note many = inst[THEN conjunct2, THEN conjunct2, THEN conjunct2, THEN conjunct2, THEN conjunct2,
                  THEN conjunct1]
  note dist = inst[THEN conjunct2, THEN conjunct2, THEN conjunct2, THEN conjunct2, THEN conjunct2,
                  THEN conjunct2, THEN conjunct2, THEN conjunct1]
  have r: "traps_of (chat_many world_two ?calls) ''s1''
     = [\<lparr>trap_type = ''fake_proof'', trap_file = ''proof_a.png'', timestamp = ''now''\<rparr>,
        \<lparr>trap_type = ''fake_proof'', trap_file = ''proof_c.png'', timestamp = ''now''\<rparr>]"
    unfolding many tf t0 by simp
  have d: "distinct [\<lparr>trap_type = ''fake_proof'', trap_file = ''proof_a.png'', timestamp = ''now''\<rparr>,
             \<lparr>trap_type = ''fake_proof'', trap_file = ''proof_c.png'', timestamp = ''now''\<rparr>]"
    using dist unfolding tf by simp
  from inv r d show ?thesis by (simp only: simp_thms)
qed

text \<open>
  Claim C7 as stated fails: the keyword is looked for in the redacted text. In this
  message the lower-cased text holds the keyword photo, inside an address that the
  analyzer flags (characters 8 to 23); the call appends no trap record and asks for no
  artifact.
\<close>

theorem redacted_keyword_triggers_nothing:
  "is_bait ''send to photo@gmail.com'' \<and>
   traps_of (fst (snd (chat_endpoint world_two (request_of ''s1'' ''send to photo@gmail.com'')
                         (env_redacting [(8, 23)] ''proof_a.png'' always_429)))) ''s1'' = [] \<and>
   filter is_render (snd (snd (chat_endpoint world_two (request_of ''s1'' ''send to photo@gmail.com'')
                                 (env_redacting [(8, 23)] ''proof_a.png'' always_429)))) = []"
proof -
  have inv: "world_inv world_two" by (simp add: world_two_def world_inv_initial)
  have raw: "is_bait ''send to photo@gmail.com''" by code_simp
  have red: "redact_pii (env_analysis (env_redacting [(8, 23)] ''proof_a.png'' always_429))
               (message (request_of ''s1'' ''send to photo@gmail.com'')) = ''send to <REDACTED>''"
    by (simp add: env_redacting_def request_of_def redact_pii_def)
  have nb: "\<not> is_bait ''send to <REDACTED>''" by code_simp
  have t0: "traps_of world_two ''s1'' = []"
    by (simp add: traps_of_def world_two_def initial_world_def)
  have sid: "session_id (request_of ''s1'' ''send to photo@gmail.com'') = ''s1''"
    by (simp add: request_of_def)
  from chat_traps[OF inv, of "request_of ''s1'' ''send to photo@gmail.com''"
      "env_redacting [(8, 23)] ''proof_a.png'' always_429"]
  have t: "traps_of (fst (snd (chat_endpoint world_two (request_of ''s1'' ''send to photo@gmail.com'')
                         (env_redacting [(8, 23)] ''proof_a.png'' always_429)))) ''s1'' = []"
    unfolding red sid by (simp add: nb t0)
  from chat_renders[OF inv, of "request_of ''s1'' ''send to photo@gmail.com''"
      "env_redacting [(8, 23)] ''proof_a.png'' always_429"]
  have n: "filter is_render (snd (snd (chat_endpoint world_two (request_of ''s1'' ''send to photo@gmail.com'')
                                 (env_redacting [(8, 23)] ''proof_a.png'' always_429)))) = []"
    unfolding red by (simp add: nb)
  from raw t n show ?thesis by (simp only: simp_thms)
qed

text \<open>
  When the gateway's reply is a text: in a call that triggers a trap the reply returned
  is the gateway's text when it holds the artifact's link and the text with the
  attachment line otherwise; either way it holds the link, and it is the assistant turn
  at the end of the transcript.
\<close>

lemma text_reply_mentions_artifact:
  assumes "world_inv w"
    and "is_bait (redact_pii (env_analysis env) (message request))"
    and "\<forall>msgs. fst (chat_completion (key_mgr w) msgs (env_groq env) (env_secondary env)) = Inr (PStr g)"
  shows "fst (chat_endpoint w request env) =
           Inr (PStr (if str_contains (''/proof/'' @ env_proof_file env) g then g
                      else g @ attachment (''/proof/'' @ env_proof_file env)))
       \<and> str_contains (''/proof/'' @ env_proof_file env)
           (if str_contains (''/proof/'' @ env_proof_file env) g then g
            else g @ attachment (''/proof/'' @ env_proof_file env))
       \<and> last (history_of (fst (snd (chat_endpoint w request env))) (session_id request)) =
           \<lparr>role = Assistant,
            content = PStr (if str_contains (''/proof/'' @ env_proof_file env) g then g
                            else g @ attachment (''/proof/'' @ env_proof_file env))\<rparr>"
proof -
  let ?safe = "redact_pii (env_analysis env) (message request)"
  let ?url = "''/proof/'' @ env_proof_file env"
  let ?final = "if str_contains ?url g then g else g @ attachment ?url"
  from assms(1) obtain s0 v km' tr2 where
    cc: "chat_completion (key_mgr w) (history (fst (process_message s0 ?safe env)))
           (env_groq env) (env_secondary env) = (Inr v, km', tr2)"
    and r: "fst (chat_endpoint w request env) = finish_reply (fst (snd (process_message s0 ?safe env))) v"
    by (rule chat_endpoint_step[of w request env])
  from assms(3) cc have v: "v = PStr g"
    by (metis fst_conv sum.inject(2))
  have img: "fst (snd (process_message s0 ?safe env)) = Some ?url"
    using assms(2) by (simp add: process_message_fields(4))
  have res: "fst (chat_endpoint w request env) = Inr (PStr ?final)"
    unfolding r img v by (simp add: finish_reply_def)
  have mention: "str_contains ?url ?final"
    by (simp add: attachment_mentions)
  from chat_history[OF assms(1), of request env] obtain base where
    h: "history_of (fst (snd (chat_endpoint w request env))) (session_id request) =
               base @ \<lparr>role = User, content = PStr ?safe\<rparr>
                 # (if is_bait ?safe then [directive_turn ?url] else [])
                 @ (case fst (chat_endpoint w request env) of
                      Inl e \<Rightarrow> [] | Inr final \<Rightarrow> [\<lparr>role = Assistant, content = final\<rparr>])"
    by (elim exE conjE)
  have lst: "last (history_of (fst (snd (chat_endpoint w request env))) (session_id request)) =
           \<lparr>role = Assistant, content = PStr ?final\<rparr>"
    unfolding h res by simp
  show ?thesis by (intro conjI) (fact res mention lst)+
qed

lemma gateway_null_content:
  "fst (chat_completion (key_mgr world_two) msgs always_null_content sec) = Inr PNone"
  by (simp add: chat_completion_def world_two_def initial_world_def KeyManager_init_def
      get_current_groq_key_def always_null_content_def null_content_body_def groq_try_def
      raise_for_status_def reply_content_def response_json_def)

text \<open>
  Claim C8 (the reply of a call that triggers a trap holds the artifact's link whatever
  the model answers). It holds when the gateway's reply is a text, see
  \<open>text_reply_mentions_artifact\<close>. It does not when the provider's body has \<open>null\<close> at
  the content path: the gateway returns \<open>None\<close>, \<open>img_url not in response_text\<close> raises
  a type error, no reply is returned and the transcript ends with the directive turn,
  without an assistant turn.
\<close>

theorem trap_with_null_reply_raises:
  "fst (chat_endpoint world_two (request_of ''s1'' ''send me a screenshot'')
          (env_of ''proof_a.png'' always_null_content)) = Inl TypeError \<and>
   map role (history_of (fst (snd (chat_endpoint world_two (request_of ''s1'' ''send me a screenshot'')
                                     (env_of ''proof_a.png'' always_null_content)))) ''s1'')
     = [System, User, System] \<and>
   traps_of (fst (snd (chat_endpoint world_two (request_of ''s1'' ''send me a screenshot'')
                         (env_of ''proof_a.png'' always_null_content)))) ''s1''
     = [\<lparr>trap_type = ''fake_proof'', trap_file = ''proof_a.png'', timestamp = ''now''\<rparr>]"
proof -
  let ?rq = "request_of ''s1'' ''send me a screenshot''"
  let ?env = "env_of ''proof_a.png'' always_null_content"
  let ?safe = "redact_pii (env_analysis ?env) (message ?rq)"
  have inv: "world_inv world_two" by (simp add: world_two_def world_inv_initial)
  have safe: "?safe = ''send me a screenshot''"
    by (simp add: env_of_def request_of_def redact_pii_def)
  have bait: "is_bait ''send me a screenshot''" by code_simp
  have sid: "session_id ?rq = ''s1''" by (simp add: request_of_def)
  have new: "sessions world_two ''s1'' = None" by (simp add: world_two_def initial_world_def)
  have t0: "traps_of world_two ''s1'' = []"
    by (simp add: traps_of_def world_two_def initial_world_def)
  have fname: "env_proof_file ?env = ''proof_a.png''" by (simp add: env_of_def)
  from inv obtain s0 v km' tr2 where
    cc: "chat_completion (key_mgr world_two) (history (fst (process_message s0 ?safe ?env)))
           (env_groq ?env) (env_secondary ?env) = (Inr v, km', tr2)"
    and r: "fst (chat_endpoint world_two ?rq ?env)
              = finish_reply (fst (snd (process_message s0 ?safe ?env))) v"
    by (rule chat_endpoint_step[of world_two ?rq ?env])
  have "fst (chat_completion (key_mgr world_two) (history (fst (process_message s0 ?safe ?env)))
           (env_groq ?env) (env_secondary ?env)) = Inr PNone"
    using gateway_null_content[of "history (fst (process_message s0 ?safe ?env))" "Inl RequestError"]
    by (simp add: env_of_def)
  with cc have v: "v = PNone" by simp
  have img: "fst (snd (process_message s0 ?safe ?env)) = Some ''/proof/proof_a.png''"
    unfolding safe by (simp add: process_message_fields(4) bait fname)
  have res: "fst (chat_endpoint world_two ?rq ?env) = Inl TypeError"
    unfolding r img v by (simp add: finish_reply_def)
  from chat_history[OF inv, of ?rq ?env] obtain base where
    b: "sessions world_two (session_id ?rq) = None \<longrightarrow>
          (\<exists>p. base = [\<lparr>role = System, content = PStr p\<rparr>])"
    and h: "history_of (fst (snd (chat_endpoint world_two ?rq ?env))) (session_id ?rq) =
               base @ \<lparr>role = User, content = PStr ?safe\<rparr>
                 # (if is_bait ?safe then [directive_turn (''/proof/'' @ env_proof_file ?env)] else [])
                 @ (case fst (chat_endpoint world_two ?rq ?env) of
                      Inl e \<Rightarrow> [] | Inr final \<Rightarrow> [\<lparr>role = Assistant, content = final\<rparr>])"
    by (elim exE conjE)
  from b new sid obtain p where base: "base = [\<lparr>role = System, content = PStr p\<rparr>]" by auto
  have roles: "map role (history_of (fst (snd (chat_endpoint world_two ?rq ?env))) ''s1'')
                 = [System, User, System]"
    using h unfolding res safe sid base
    by (simp add: bait directive_turn_mentions[THEN conjunct1])
  from chat_traps[OF inv, of ?rq ?env]
  have traps: "traps_of (fst (snd (chat_endpoint world_two ?rq ?env))) ''s1''
     = [\<lparr>trap_type = ''fake_proof'', trap_file = ''proof_a.png'', timestamp = ''now''\<rparr>]"
    unfolding safe sid by (simp add: bait t0 fname)
  from res roles traps show ?thesis by (simp only: simp_thms)
qed

text \<open>
  Claim C9, amended. For a session id never seen, the report endpoint answers with the
  not-found error, the media endpoint returns its description and changes nothing, and
  the chat endpoint raises no HTTP error and creates the session.
\<close>

theorem unseen_session_endpoints:
  assumes "world_inv w" and "sessions w sid = None" and "session_id request = sid"
  shows "get_report w sid = Inl (HTTPException 404 ''Session not found'')
       \<and> (\<exists>description. upload_media w sid media = (Inr description, w))
       \<and> (\<forall>code detail. fst (chat_endpoint w request env) \<noteq> Inl (HTTPException code detail))
       \<and> sessions (fst (snd (chat_endpoint w request env))) sid \<noteq> None"
proof -
  have rep: "get_report w sid = Inl (HTTPException 404 ''Session not found'')"
    using assms(2) by (simp add: get_report_def)
  have med: "\<exists>description. upload_media w sid media = (Inr description, w)"
    using assms(2) by (simp add: upload_media_def Let_def)
  from assms(1) obtain s0 v km' tr2 where
    r: "fst (chat_endpoint w request env) =
          finish_reply (fst (snd (process_message s0 (redact_pii (env_analysis env) (message request)) env))) v"
    and s: "sessions (fst (snd (chat_endpoint w request env))) (session_id request) =
       Some ((fst (process_message s0 (redact_pii (env_analysis env) (message request)) env))
               \<lparr>history :=
                  history (fst (process_message s0 (redact_pii (env_analysis env) (message request)) env))
                  @ (case fst (chat_endpoint w request env) of
                       Inl e \<Rightarrow> [] | Inr final \<Rightarrow> [\<lparr>role = Assistant, content = final\<rparr>])\<rparr>)"
    by (rule chat_endpoint_step[of w request env])
  have fr: "finish_reply i x \<noteq> Inl (HTTPException code detail)" for i x code detail
    by (cases i; cases x) (auto simp: finish_reply_def split: if_splits bool.splits)
  have chat: "\<forall>code detail. fst (chat_endpoint w request env) \<noteq> Inl (HTTPException code detail)"
    unfolding r using fr by simp
  have created: "sessions (fst (snd (chat_endpoint w request env))) sid \<noteq> None"
    using s assms(3) by simp
  show ?thesis by (intro conjI) (fact rep med chat created)+
qed

text \<open>
  The three endpoints on the world just loaded.
\<close>

theorem unseen_session_endpoints_witness:
  "world_inv world_two \<and> sessions world_two ''never-seen'' = None \<and>
   get_report world_two ''never-seen'' = Inl (HTTPException 404 ''Session not found'') \<and>
   sessions (fst (snd (chat_endpoint world_two (request_of ''never-seen'' ''hello'')
                         (env_of ''proof_a.png'' always_429)))) ''never-seen'' \<noteq> None"
proof -
  have inv: "world_inv world_two" by (simp add: world_two_def world_inv_initial)
  have n: "sessions world_two ''never-seen'' = None"
    by (simp add: world_two_def initial_world_def)
  have sid: "session_id (request_of ''never-seen'' ''hello'') = ''never-seen''"
    by (simp add: request_of_def)
  note u = unseen_session_endpoints[OF inv n sid, of "media_of ''image/png''"
      "env_of ''proof_a.png'' always_429"]
  from u[THEN conjunct1] u[THEN conjunct2, THEN conjunct2, THEN conjunct2] inv n
  show ?thesis by (simp only: simp_thms)
qed

text \<open>
  Claim C9 as stated fails for the media endpoint: an upload for an unseen session id
  returns the description, not an error.
\<close>

theorem upload_media_unseen_no_error:
  "sessions world_two ''never-seen'' = None \<and>
   upload_media world_two ''never-seen'' (media_of ''image/png'')
     = (Inr ''[Image Processing Failed]'', world_two)"
  by (simp add: world_two_def initial_world_def upload_media_def media_of_def type_mentions_def)

end
